theory Spec2Isabelle
  imports Complex_Main
begin

section \<open>Adaptive Process Booster: the monitoring and control core\<close>

text \<open>
  A shallow embedding of \<^verbatim>\<open>adaptive_process_booster.py\<close>: the module-level
  functions \<^verbatim>\<open>boost_process_priority\<close>, \<^verbatim>\<open>kill_process\<close>,
  \<^verbatim>\<open>calculate_score\<close> and \<^verbatim>\<open>monitor_processes\<close>, and the methods
  \<^verbatim>\<open>log_action\<close>, \<^verbatim>\<open>boost_selected_process\<close> and \<^verbatim>\<open>on_closing\<close> of the
  application object.

  Conventions.
  \<^item> Python floats are modelled as reals: the rounding of the two products and of the
    sum in \<^verbatim>\<open>calculate_score\<close> is not modelled.
  \<^item> The operating system (psutil) and the clock are inputs: every call into them takes
    its answer from an explicit environment value, and an exception is a value of
    type \<open>exn\<close>.
  \<^item> Calls that leave the program (psutil calls, message boxes, callbacks scheduled on
    the Tk main loop, \<^verbatim>\<open>time.sleep\<close>) are recorded, in program order, in a list of
    effects returned next to the result.
  \<^item> The application object is a record that is passed in and returned updated.
\<close>

subsection \<open>Exceptions and Python's \<^verbatim>\<open>or\<close>\<close>

datatype exn = NoSuchProcess | AccessDenied | ZombieProcess | OtherException

text \<open>
  \<^verbatim>\<open>x or d\<close>: the default replaces \<^verbatim>\<open>None\<close> and every other falsy value, which is
  the empty string for a name and zero for a percentage.
\<close>

definition or_str :: "string option \<Rightarrow> string \<Rightarrow> string" where
  "or_str x d = (case x of None \<Rightarrow> d | Some s \<Rightarrow> if s = [] then d else s)"

definition or_float :: "real option \<Rightarrow> real \<Rightarrow> real" where
  "or_float x d = (case x of None \<Rightarrow> d | Some v \<Rightarrow> if v = 0 then d else v)"

subsection \<open>Formatting\<close>

definition digit_char :: "nat \<Rightarrow> char" where
  "digit_char n = ''0123456789'' ! (n mod 10)"

fun str_nat :: "nat \<Rightarrow> string" where
  "str_nat n = (if n < 10 then [digit_char n] else str_nat (n div 10) @ [digit_char n])"

declare str_nat.simps [simp del]

text \<open>\<^verbatim>\<open>str(i)\<close> for an integer, as an f-string renders \<^verbatim>\<open>{pid}\<close>.\<close>

definition str_int :: "int \<Rightarrow> string" where
  "str_int i = (if i < 0 then CHR ''-'' # str_nat (nat (- i)) else str_nat (nat i))"

definition round_half_even :: "real \<Rightarrow> nat" where
  "round_half_even y =
     (let f = nat \<lfloor>y\<rfloor>; r = y - real f
      in if r < 1 / 2 then f else if 1 / 2 < r then Suc f else if even f then f else Suc f)"

text \<open>
  The format specification \<^verbatim>\<open>.2f\<close>: two digits after the point, the nearest value,
  ties to even, the sign kept.
\<close>

definition format_2f :: "real \<Rightarrow> string" where
  "format_2f x =
     (let h = round_half_even (\<bar>x\<bar> * 100);
          body = str_nat (h div 100) @ ''.'' @ [digit_char (h div 10), digit_char h]
      in if x < 0 then CHR ''-'' # body else body)"

subsection \<open>Priority levels\<close>

text \<open>
  The Windows priority classes are constants of psutil; they are kept symbolic. The
  argument of \<^verbatim>\<open>process.nice\<close> is such a class on Windows and a nice value elsewhere.
\<close>

datatype priority_class =
    REALTIME_PRIORITY_CLASS
  | HIGH_PRIORITY_CLASS
  | ABOVE_NORMAL_PRIORITY_CLASS
  | NORMAL_PRIORITY_CLASS
  | BELOW_NORMAL_PRIORITY_CLASS
  | IDLE_PRIORITY_CLASS

datatype nice_arg = PriorityClass priority_class | NiceValue int

definition PRIORITY_LEVELS_Windows :: "(string \<times> nice_arg) list" where
  "PRIORITY_LEVELS_Windows =
     [(''Realtime'', PriorityClass REALTIME_PRIORITY_CLASS),
      (''High'', PriorityClass HIGH_PRIORITY_CLASS),
      (''Above Normal'', PriorityClass ABOVE_NORMAL_PRIORITY_CLASS),
      (''Normal'', PriorityClass NORMAL_PRIORITY_CLASS),
      (''Below Normal'', PriorityClass BELOW_NORMAL_PRIORITY_CLASS),
      (''Low'', PriorityClass IDLE_PRIORITY_CLASS)]"

definition PRIORITY_LEVELS_Linux :: "(string \<times> nice_arg) list" where
  "PRIORITY_LEVELS_Linux =
     [(''Very High'', NiceValue (- 10)),
      (''High'', NiceValue (- 5)),
      (''Above Normal'', NiceValue (- 2)),
      (''Normal'', NiceValue 0),
      (''Below Normal'', NiceValue 5),
      (''Low'', NiceValue 10)]"

subsection \<open>The operating system and the effects of the program\<close>

text \<open>
  What the operating system answers for one pid: whether \<^verbatim>\<open>psutil.Process(pid)\<close>,
  \<^verbatim>\<open>nice\<close>, \<^verbatim>\<open>terminate\<close> and \<^verbatim>\<open>kill\<close> raise, and whether the process is still
  running when \<^verbatim>\<open>is_running\<close> is asked after the grace period.
\<close>

record os_proc =
  lookup_error :: "exn option"
  nice_error :: "nice_arg \<Rightarrow> exn option"
  terminate_error :: "exn option"
  still_running :: bool
  kill_error :: "exn option"

type_synonym os = "int \<Rightarrow> os_proc"

record sample =
  pid :: int
  name :: string
  cpu :: real
  ram :: real
  score :: real
  status :: "string option"

record system_stats =
  stat_cpu :: real
  memory_percent :: real
  memory_total :: real
  memory_used :: real
  memory_available :: real
  disk_percent :: real
  disk_total :: real
  disk_used :: real
  disk_free :: real

datatype effect =
    Boost int string
  | Nice int nice_arg
  | Terminate int
  | Sleep real
  | IsRunning int
  | Kill int
  | UpdateSystemStats system_stats
  | UpdateProcessList "sample list"
  | AskString string string
  | ShowWarning string string
  | ShowInfo string string
  | ShowError string string
  | SetStatus string

subsection \<open>\<^verbatim>\<open>boost_process_priority\<close>, \<^verbatim>\<open>kill_process\<close>, \<^verbatim>\<open>calculate_score\<close>\<close>

definition priority_map :: "string \<Rightarrow> (string \<times> nice_arg) list" where
  "priority_map sys_platform =
     (if sys_platform = ''win32'' then PRIORITY_LEVELS_Windows else PRIORITY_LEVELS_Linux)"

text \<open>
  The value handed to \<^verbatim>\<open>process.nice\<close>: the entry of the platform's map, and for a
  level that is not a key of the map \<^verbatim>\<open>HIGH_PRIORITY_CLASS\<close> on Windows and \<open>-5\<close>
  elsewhere.
\<close>

definition nice_value :: "string \<Rightarrow> string \<Rightarrow> nice_arg" where
  "nice_value sys_platform priority_level =
     (if sys_platform = ''win32'' then
        (case map_of PRIORITY_LEVELS_Windows priority_level of
           Some v \<Rightarrow> v
         | None \<Rightarrow> PriorityClass HIGH_PRIORITY_CLASS)
      else
        (case map_of PRIORITY_LEVELS_Linux priority_level of
           Some v \<Rightarrow> v
         | None \<Rightarrow> NiceValue (- 5)))"

text \<open>
  The result is the returned bool. The first effect records the call itself; every
  exception is caught inside and turns into \<open>False\<close>.
\<close>

definition boost_process_priority :: "string \<Rightarrow> os \<Rightarrow> int \<Rightarrow> string \<Rightarrow> bool \<times> effect list" where
  "boost_process_priority sys_platform os p priority_level =
     (case lookup_error (os p) of
        Some e \<Rightarrow> (False, [Boost p priority_level])
      | None \<Rightarrow>
          (let v = nice_value sys_platform priority_level
           in case nice_error (os p) v of
                Some e \<Rightarrow> (False, [Boost p priority_level, Nice p v])
              | None \<Rightarrow> (True, [Boost p priority_level, Nice p v])))"

definition kill_process :: "os \<Rightarrow> int \<Rightarrow> bool \<times> effect list" where
  "kill_process os p =
     (case lookup_error (os p) of
        Some e \<Rightarrow> (False, [])
      | None \<Rightarrow>
          (case terminate_error (os p) of
             Some e \<Rightarrow> (False, [Terminate p])
           | None \<Rightarrow>
               (if still_running (os p) then
                  (case kill_error (os p) of
                     Some e \<Rightarrow> (False, [Terminate p, Sleep 0.5, IsRunning p, Kill p])
                   | None \<Rightarrow> (True, [Terminate p, Sleep 0.5, IsRunning p, Kill p]))
                else (True, [Terminate p, Sleep 0.5, IsRunning p]))))"

definition calculate_score :: "real \<Rightarrow> real \<Rightarrow> real" where
  "calculate_score cpu_percent ram_percent = 0.6 * cpu_percent + 0.4 * ram_percent"

subsection \<open>The application object and its action log\<close>

text \<open>
  \<^verbatim>\<open>collections.deque(maxlen=n)\<close>, \<^verbatim>\<open>append\<close>: the item goes to the right end, and
  when the deque is then longer than \<open>n\<close> the leftmost item is removed.
\<close>

definition deque_append :: "nat \<Rightarrow> 'a list \<Rightarrow> 'a \<Rightarrow> 'a list" where
  "deque_append maxlen d x = (let d' = d @ [x] in if maxlen < length d' then tl d' else d')"

record app =
  monitoring_active :: bool
  selected_pid :: "int option"
  auto_boost_enabled :: bool
  auto_boost_threshold :: real
  auto_boost_level :: string
  action_history :: "string list"

text \<open>The state set up by \<^verbatim>\<open>__init__\<close>; \<^verbatim>\<open>action_history\<close> is \<^verbatim>\<open>deque(maxlen=100)\<close>.\<close>

definition action_history_maxlen :: nat where
  "action_history_maxlen = 100"

definition init_app :: app where
  "init_app =
     \<lparr>monitoring_active = True, selected_pid = None, auto_boost_enabled = False,
      auto_boost_threshold = 50.0, auto_boost_level = ''High'', action_history = []\<rparr>"

text \<open>
  What one call of \<^verbatim>\<open>log_action\<close> takes from outside: the formatted time of
  \<^verbatim>\<open>datetime.now()\<close>, and the message of the exception that the update of the history
  widget raises, if it raises.
\<close>

record log_env =
  now :: string
  widget_error :: "string option"

definition log_entry :: "string \<Rightarrow> string \<Rightarrow> string" where
  "log_entry timestamp message = ''['' @ timestamp @ ''] '' @ message @ [CHR 0x0A]"

text \<open>
  The entry is appended before the widget is touched, so it is in the log also when
  the call ends in an exception (the first component).
\<close>

definition log_action :: "log_env \<Rightarrow> string \<Rightarrow> app \<Rightarrow> string option \<times> app" where
  "log_action le message a =
     (widget_error le,
      a\<lparr>action_history :=
          deque_append action_history_maxlen (action_history a) (log_entry (now le) message)\<rparr>)"

text \<open>A run of \<^verbatim>\<open>log_action\<close> calls, one after the other.\<close>

fun log_actions :: "(log_env \<times> string) list \<Rightarrow> app \<Rightarrow> app" where
  "log_actions [] a = a"
| "log_actions ((le, message) # rest) a = log_actions rest (snd (log_action le message a))"

subsection \<open>The interactive boost and the window close handler\<close>

definition join :: "string \<Rightarrow> string list \<Rightarrow> string" where
  "join sep xs = (case xs of [] \<Rightarrow> [] | y # ys \<Rightarrow> y @ concat (map (\<lambda>z. sep @ z) ys))"

definition ask_prompt :: "string \<Rightarrow> string" where
  "ask_prompt sys_platform =
     ''Select priority level:'' @ [CHR 0x0A] @ join '', '' (map fst (priority_map sys_platform))
       @ [CHR 0x0A, CHR 0x0A] @ ''Enter priority (default: High):''"

text \<open>
  \<^verbatim>\<open>boost_selected_process\<close>. \<open>answer\<close> is what the \<^verbatim>\<open>askstring\<close> dialog returns
  (\<open>None\<close> when it is cancelled). An answer that is not a key of the platform's map is
  replaced by \<^verbatim>\<open>'High'\<close> before anything else is done with it. The only call of the
  \<^verbatim>\<open>try\<close> block that raises in this model is the widget update of \<^verbatim>\<open>log_action\<close>;
  the status label is then not updated and the handler shows the exception.
\<close>

definition boost_selected_process ::
  "string \<Rightarrow> os \<Rightarrow> app \<Rightarrow> string option \<Rightarrow> log_env \<Rightarrow> app \<times> effect list" where
  "boost_selected_process sys_platform os a answer le =
     (case selected_pid a of
        None \<Rightarrow> (a, [ShowWarning ''No Selection'' ''Please select a process first.''])
      | Some p \<Rightarrow>
          (let ask = AskString ''Priority Level'' (ask_prompt sys_platform)
           in case answer of
                None \<Rightarrow> (a, [ask])
              | Some typed \<Rightarrow>
                  (let priority =
                         (if typed \<notin> set (map fst (priority_map sys_platform))
                          then ''High'' else typed);
                       (success, effs) = boost_process_priority sys_platform os p priority
                   in if success then
                        (let info = ShowInfo ''Success''
                                      (''Process '' @ str_int p @ '' priority set to '' @ priority @ ''!'');
                             (raised, a') =
                               log_action le
                                 (''Boosted PID '' @ str_int p @ '' to '' @ priority @ '' priority'') a
                         in case raised of
                              None \<Rightarrow>
                                (a', ask # effs @
                                   [info,
                                    SetStatus (''Status: Process '' @ str_int p @ '' boosted to '' @ priority)])
                            | Some msg \<Rightarrow>
                                (a', ask # effs @
                                   [info, ShowError ''Error'' (''An error occurred: '' @ msg)]))
                      else
                        (let err = ShowError ''Error'' (''Failed to boost process '' @ str_int p @ ''.'');
                             (raised, a') = log_action le (''Failed to boost PID '' @ str_int p) a
                         in case raised of
                              None \<Rightarrow> (a', ask # effs @ [err])
                            | Some msg \<Rightarrow>
                                (a', ask # effs @
                                   [err, ShowError ''Error'' (''An error occurred: '' @ msg)])))))"

text \<open>
  \<^verbatim>\<open>on_closing\<close>: the stop flag is cleared, then the closing is logged. The window is
  destroyed afterwards, whatever \<^verbatim>\<open>log_action\<close> did to the widget is lost with it.
\<close>

definition on_closing :: "log_env \<Rightarrow> app \<Rightarrow> app" where
  "on_closing le a = snd (log_action le ''Application closed'' (a\<lparr>monitoring_active := False\<rparr>))"

subsection \<open>One pass of \<^verbatim>\<open>monitor_processes\<close>\<close>

text \<open>
  The \<^verbatim>\<open>info\<close> dictionary of one item of \<^verbatim>\<open>process_iter\<close>: the five requested
  keys are always present, and a value that could not be read is \<^verbatim>\<open>None\<close>.
\<close>

record proc_info =
  info_pid :: int
  info_name :: "string option"
  info_cpu_percent :: "real option"
  info_memory_percent :: "real option"
  info_status :: "string option"

text \<open>
  One assignment of \<^verbatim>\<open>SettingsWindow.save_settings\<close> to the application object. A
  call of \<^verbatim>\<open>save_settings\<close> assigns \<^verbatim>\<open>auto_boost_enabled\<close> first; when the text of
  the threshold entry is no number, \<^verbatim>\<open>float\<close> raises and the other two assignments
  do not happen.
\<close>

datatype setting_write = SetEnabled bool | SetThreshold real | SetLevel string

definition assign :: "setting_write \<Rightarrow> app \<Rightarrow> app" where
  "assign w a =
     (case w of
        SetEnabled b \<Rightarrow> a\<lparr>auto_boost_enabled := b\<rparr>
      | SetThreshold t \<Rightarrow> a\<lparr>auto_boost_threshold := t\<rparr>
      | SetLevel l \<Rightarrow> a\<lparr>auto_boost_level := l\<rparr>)"

definition save_settings :: "bool \<Rightarrow> real option \<Rightarrow> string \<Rightarrow> setting_write list" where
  "save_settings auto_boost_var threshold_var priority_var =
     (case threshold_var of
        None \<Rightarrow> [SetEnabled auto_boost_var]
      | Some t \<Rightarrow> [SetEnabled auto_boost_var, SetThreshold t, SetLevel priority_var])"

text \<open>
  What happens while the \<^verbatim>\<open>for\<close> loop of a pass runs, in order. The monitoring
  thread and the Tk thread share the application object, and the Tk thread may run
  between any two steps of the monitoring thread.

  \<open>Proc r g1 g2 le\<close> is one iteration: \<open>r\<close> is the item's \<^verbatim>\<open>info\<close>, or the
  exception that reading it raises, and \<open>le\<close> serves the \<^verbatim>\<open>log_action\<close> call of that
  iteration, if there is one. The iteration reads the settings at three places:
  \<^verbatim>\<open>auto_boost_enabled\<close> and then \<^verbatim>\<open>auto_boost_threshold\<close> in the condition, and
  \<^verbatim>\<open>auto_boost_level\<close> in the call. \<open>g1\<close> is what the Tk thread assigns between the
  first and the second of these reads, \<open>g2\<close> what it assigns between the second and
  the third.

  \<open>Saved w\<close> is an assignment of the Tk thread between two iterations, and
  \<open>Closing le\<close> is \<^verbatim>\<open>on_closing\<close>. Events after the last \<open>Proc\<close> happen before the
  next pass starts.
\<close>

datatype event =
    Proc "exn + proc_info" "setting_write list" "setting_write list" log_env
  | Saved setting_write
  | Closing log_env

record virtual_memory =
  vm_percent :: real
  vm_total :: real
  vm_used :: real
  vm_available :: real

record disk_usage =
  du_percent :: real
  du_total :: real
  du_used :: real
  du_free :: real

text \<open>
  What one pass takes from outside: the answers of \<^verbatim>\<open>psutil.cpu_percent\<close>,
  \<^verbatim>\<open>psutil.virtual_memory\<close> and \<^verbatim>\<open>psutil.disk_usage\<close>, whether the two
  \<^verbatim>\<open>root.after\<close> calls raise, the events of the \<^verbatim>\<open>for\<close> loop, whether
  \<^verbatim>\<open>process_iter\<close> itself raises after its last item, and the operating system's
  answers to the priority calls.
\<close>

record pass_env =
  cpu_percent_result :: "exn + real"
  virtual_memory_result :: "exn + virtual_memory"
  disk_usage_result :: "exn + disk_usage"
  after_stats_error :: "exn option"
  schedule :: "event list"
  process_iter_error :: "exn option"
  after_list_error :: "exn option"
  os_view :: os

definition auto_boost_message :: "int \<Rightarrow> string \<Rightarrow> real \<Rightarrow> string" where
  "auto_boost_message p nm sc =
     ''Auto-boosted PID '' @ str_int p @ '' ('' @ nm @ '') - Score: '' @ format_2f sc"

text \<open>
  The body of the \<^verbatim>\<open>for\<close> loop: the application object after it, the sample appended
  to \<^verbatim>\<open>processes_data\<close> (none when the iteration ends in \<^verbatim>\<open>continue\<close>), and the
  effects. \<^verbatim>\<open>auto_boost_enabled\<close> is read from the object as the iteration finds it,
  \<^verbatim>\<open>auto_boost_threshold\<close> after the assignments of \<open>g1\<close>, and \<^verbatim>\<open>auto_boost_level\<close>
  after those of \<open>g2\<close>; the assignments stay in the object whatever the iteration
  does. The result of \<^verbatim>\<open>boost_process_priority\<close> is not looked at, and an exception
  of \<^verbatim>\<open>log_action\<close> is dropped by the bare \<^verbatim>\<open>except\<close>.
\<close>

definition loop_body ::
  "string \<Rightarrow> os \<Rightarrow> app \<Rightarrow> exn + proc_info \<Rightarrow> setting_write list \<Rightarrow> setting_write list \<Rightarrow>
     log_env \<Rightarrow> app \<times> sample list \<times> effect list" where
  "loop_body sys_platform os a r g1 g2 le =
     (case r of
        Inl e \<Rightarrow> (fold assign (g1 @ g2) a, [], [])
      | Inr info \<Rightarrow>
          (let p = info_pid info;
               nm = or_str (info_name info) ''N/A'';
               cpu_percent = or_float (info_cpu_percent info) 0.0;
               ram_percent = or_float (info_memory_percent info) 0.0;
               st = info_status info;
               sc = calculate_score cpu_percent ram_percent;
               enabled = auto_boost_enabled a;
               a1 = fold assign g1 a;
               above = sc > auto_boost_threshold a1;
               a2 = fold assign g2 a1;
               (a', effs) =
                 (if enabled \<and> above then
                    (let (success, effs) =
                           boost_process_priority sys_platform os p (auto_boost_level a2);
                         (raised, a') = log_action le (auto_boost_message p nm sc) a2
                     in (a', effs))
                  else (a2, []))
           in (a',
               [\<lparr>pid = p, name = nm, cpu = cpu_percent, ram = ram_percent, score = sc,
                 status = st\<rparr>],
               effs)))"

definition handle_event ::
  "string \<Rightarrow> os \<Rightarrow> app \<Rightarrow> event \<Rightarrow> app \<times> sample list \<times> effect list" where
  "handle_event sys_platform os a ev =
     (case ev of
        Proc r g1 g2 le \<Rightarrow> loop_body sys_platform os a r g1 g2 le
      | Saved w \<Rightarrow> (assign w a, [], [])
      | Closing le \<Rightarrow> (on_closing le a, [], []))"

text \<open>
  The \<^verbatim>\<open>for\<close> loop: \<^verbatim>\<open>processes_data\<close> starts empty and every iteration appends
  at its end, so the list returned is the samples in the order of the iterations.
\<close>

fun for_loop ::
  "string \<Rightarrow> os \<Rightarrow> app \<Rightarrow> event list \<Rightarrow> app \<times> sample list \<times> effect list" where
  "for_loop sys_platform os a [] = (a, [], [])"
| "for_loop sys_platform os a (ev # evs) =
     (let (a', s, effs) = handle_event sys_platform os a ev;
          (a'', ss, effs') = for_loop sys_platform os a' evs
      in (a'', s @ ss, effs @ effs'))"

definition zero_disk :: disk_usage where
  "zero_disk = \<lparr>du_percent = 0, du_total = 0, du_used = 0, du_free = 0\<rparr>"

definition make_stats :: "real \<Rightarrow> virtual_memory \<Rightarrow> disk_usage \<Rightarrow> system_stats" where
  "make_stats system_cpu system_memory system_disk =
     \<lparr>stat_cpu = system_cpu,
      memory_percent = vm_percent system_memory,
      memory_total = vm_total system_memory,
      memory_used = vm_used system_memory,
      memory_available = vm_available system_memory,
      disk_percent = du_percent system_disk,
      disk_total = du_total system_disk,
      disk_used = du_used system_disk,
      disk_free = du_free system_disk\<rparr>"

text \<open>
  When the body of the outer \<^verbatim>\<open>try\<close> is left before the \<^verbatim>\<open>for\<close> loop, no
  iteration runs; the Tk thread does what it does all the same.
\<close>

definition is_iteration :: "event \<Rightarrow> bool" where
  "is_iteration ev = (case ev of Proc r g1 g2 le \<Rightarrow> True | _ \<Rightarrow> False)"

definition tk_only :: "string \<Rightarrow> os \<Rightarrow> app \<Rightarrow> event list \<Rightarrow> app" where
  "tk_only sys_platform os a evs =
     fst (for_loop sys_platform os a (filter (\<lambda>ev. \<not> is_iteration ev) evs))"

text \<open>
  The body of the outer \<^verbatim>\<open>try\<close> up to, and without, its \<^verbatim>\<open>time.sleep(1)\<close>. The first
  component is the exception that leaves the body, if one does; what the body did
  before stays done.
\<close>

definition monitor_pass :: "string \<Rightarrow> app \<Rightarrow> pass_env \<Rightarrow> exn option \<times> app \<times> effect list" where
  "monitor_pass sys_platform a env =
     (let skipped = tk_only sys_platform (os_view env) a (schedule env)
      in case cpu_percent_result env of
           Inl e \<Rightarrow> (Some e, skipped, [])
         | Inr system_cpu \<Rightarrow>
             (case virtual_memory_result env of
                Inl e \<Rightarrow> (Some e, skipped, [])
              | Inr system_memory \<Rightarrow>
                  (let system_disk =
                         (case disk_usage_result env of Inl e \<Rightarrow> zero_disk | Inr d \<Rightarrow> d);
                       stats = UpdateSystemStats (make_stats system_cpu system_memory system_disk)
                   in case after_stats_error env of
                        Some e \<Rightarrow> (Some e, skipped, [])
                      | None \<Rightarrow>
                          (let (a', processes_data, effs) =
                                 for_loop sys_platform (os_view env) a (schedule env)
                           in case process_iter_error env of
                                Some e \<Rightarrow> (Some e, a', stats # effs)
                              | None \<Rightarrow>
                                  (case after_list_error env of
                                     Some e \<Rightarrow> (Some e, a', stats # effs)
                                   | None \<Rightarrow>
                                       (None, a',
                                        stats # effs @ [UpdateProcessList processes_data]))))))"

subsection \<open>The loop of \<^verbatim>\<open>monitor_processes\<close>\<close>

text \<open>
  The \<^verbatim>\<open>while\<close> loop may run forever. It is run against the environments of finitely
  many passes: \<open>Returned\<close> says that the loop found the flag cleared and the function
  returned, \<open>Running\<close> that after the last of these passes the loop is still going.
  Both ways out of a pass, the end of the \<^verbatim>\<open>try\<close> body and the handler, sleep one
  second.
\<close>

datatype loop_state = Returned | Running

fun monitor_processes ::
  "string \<Rightarrow> app \<Rightarrow> pass_env list \<Rightarrow> loop_state \<times> app \<times> effect list" where
  "monitor_processes sys_platform a [] =
     (if monitoring_active a then (Running, a, []) else (Returned, a, []))"
| "monitor_processes sys_platform a (env # envs) =
     (if monitoring_active a then
        (let (raised, a', effs) = monitor_pass sys_platform a env;
             slept = (case raised of None \<Rightarrow> effs @ [Sleep 1] | Some e \<Rightarrow> effs @ [Sleep 1]);
             (st, a'', effs') = monitor_processes sys_platform a' envs
         in (st, a'', slept @ effs'))
      else (Returned, a, []))"

subsection \<open>Reading the effects of a run\<close>

text \<open>
  Observations used to state the properties: the calls of
  \<^verbatim>\<open>boost_process_priority\<close> among the effects, the process lists handed to
  \<^verbatim>\<open>update_process_list\<close>, and the sleeps.
\<close>

definition boost_calls :: "effect list \<Rightarrow> (int \<times> string) list" where
  "boost_calls effs = [(p, l). Boost p l \<leftarrow> effs]"

definition published :: "effect list \<Rightarrow> sample list list" where
  "published effs = [ss. UpdateProcessList ss \<leftarrow> effs]"

definition sleeps :: "effect list \<Rightarrow> real list" where
  "sleeps effs = [t. Sleep t \<leftarrow> effs]"

text \<open>The \<^verbatim>\<open>info\<close> dictionaries of the iterations of a pass that read theirs.\<close>

definition sampled :: "event list \<Rightarrow> proc_info list" where
  "sampled evs = [info. Proc (Inr info) g1 g2 le \<leftarrow> evs]"

text \<open>The dictionary that the loop body appends for an \<^verbatim>\<open>info\<close>.\<close>

definition sample_of :: "proc_info \<Rightarrow> sample" where
  "sample_of info =
     \<lparr>pid = info_pid info,
      name = or_str (info_name info) ''N/A'',
      cpu = or_float (info_cpu_percent info) 0,
      ram = or_float (info_memory_percent info) 0,
      score = calculate_score (or_float (info_cpu_percent info) 0)
                (or_float (info_memory_percent info) 0),
      status = info_status info\<rparr>"

text \<open>
  The calls of a pass outside the loop body return: \<^verbatim>\<open>cpu_percent\<close>,
  \<^verbatim>\<open>virtual_memory\<close>, \<^verbatim>\<open>process_iter\<close> and the two \<^verbatim>\<open>root.after\<close>. A failing
  \<^verbatim>\<open>disk_usage\<close> is allowed.
\<close>

definition system_calls_return :: "pass_env \<Rightarrow> bool" where
  "system_calls_return env =
     (\<not> isl (cpu_percent_result env) \<and> \<not> isl (virtual_memory_result env)
      \<and> after_stats_error env = None \<and> process_iter_error env = None
      \<and> after_list_error env = None)"

text \<open>The Tk thread assigns a setting at this event, or inside this iteration.\<close>

definition is_config_write :: "event \<Rightarrow> bool" where
  "is_config_write ev =
     (case ev of
        Proc r g1 g2 le \<Rightarrow> g1 @ g2 \<noteq> []
      | Saved w \<Rightarrow> True
      | Closing le \<Rightarrow> False)"

definition is_closing :: "event \<Rightarrow> bool" where
  "is_closing ev = (case ev of Closing le \<Rightarrow> True | _ \<Rightarrow> False)"

definition stop_requested :: "pass_env \<Rightarrow> bool" where
  "stop_requested env = list_ex is_closing (schedule env)"

definition policy_config :: "app \<Rightarrow> bool \<times> real \<times> string" where
  "policy_config a = (auto_boost_enabled a, auto_boost_threshold a, auto_boost_level a)"

text \<open>
  The settings after an assignment, and the settings in force after the events of
  \<open>evs\<close> when \<open>c\<close> was in force before them: every assignment replaces its one
  setting, in the order of the events.
\<close>

definition written :: "setting_write \<Rightarrow> bool \<times> real \<times> string \<Rightarrow> bool \<times> real \<times> string" where
  "written w c =
     (case c of (en, th, lv) \<Rightarrow>
        (case w of
           SetEnabled b \<Rightarrow> (b, th, lv)
         | SetThreshold t \<Rightarrow> (en, t, lv)
         | SetLevel l \<Rightarrow> (en, th, l)))"

fun settings_after :: "bool \<times> real \<times> string \<Rightarrow> event list \<Rightarrow> bool \<times> real \<times> string" where
  "settings_after c [] = c"
| "settings_after c (Proc r g1 g2 le # evs) = settings_after (fold written (g1 @ g2) c) evs"
| "settings_after c (Saved w # evs) = settings_after (written w c) evs"
| "settings_after c (Closing le # evs) = settings_after c evs"

text \<open>
  The calls that an iteration makes when \<open>c\<close> is in force at its start: the switch
  is the one of \<open>c\<close>, the threshold the one after \<open>g1\<close>, the level the one after
  \<open>g2\<close>.
\<close>

definition calls_under ::
  "bool \<times> real \<times> string \<Rightarrow> proc_info \<Rightarrow> setting_write list \<Rightarrow> setting_write list \<Rightarrow>
     (int \<times> string) list" where
  "calls_under c info g1 g2 =
     (let c1 = fold written g1 c; c2 = fold written g2 c1
      in if fst c \<and> score (sample_of info) > fst (snd c1)
         then [(info_pid info, snd (snd c2))] else [])"

text \<open>The \<^verbatim>\<open>for\<close> loop of the pass is reached: the calls before it return.\<close>

definition loop_reached :: "pass_env \<Rightarrow> bool" where
  "loop_reached env =
     (\<not> isl (cpu_percent_result env) \<and> \<not> isl (virtual_memory_result env)
      \<and> after_stats_error env = None)"

text \<open>
  The number of passes the loop runs against the environments of \<open>envs\<close> when it
  starts with the flag set: all of them, or those up to and with the first pass
  during which \<^verbatim>\<open>on_closing\<close> runs.
\<close>

fun passes_run :: "pass_env list \<Rightarrow> nat" where
  "passes_run [] = 0"
| "passes_run (env # envs) = (if stop_requested env then 1 else Suc (passes_run envs))"

subsection \<open>Example inputs\<close>

definition clock0 :: log_env where
  "clock0 = \<lparr>now = ''2025-03-01 12:00:00'', widget_error = None\<rparr>"

definition quiet_os :: os where
  "quiet_os =
     (\<lambda>p. \<lparr>lookup_error = None, nice_error = (\<lambda>v. None), terminate_error = None,
            still_running = False, kill_error = None\<rparr>)"

definition mk_info :: "int \<Rightarrow> string \<Rightarrow> real \<Rightarrow> real \<Rightarrow> proc_info" where
  "mk_info p nm c m =
     \<lparr>info_pid = p, info_name = Some nm, info_cpu_percent = Some c,
      info_memory_percent = Some m, info_status = Some ''running''\<rparr>"

text \<open>A pass in which every call outside the loop body returns.\<close>

definition pass_of :: "os \<Rightarrow> event list \<Rightarrow> pass_env" where
  "pass_of os evs =
     \<lparr>cpu_percent_result = Inr 12.5,
      virtual_memory_result =
        Inr \<lparr>vm_percent = 40, vm_total = 16000, vm_used = 6400, vm_available = 9600\<rparr>,
      disk_usage_result =
        Inr \<lparr>du_percent = 50, du_total = 500000, du_used = 250000, du_free = 250000\<rparr>,
      after_stats_error = None,
      schedule = evs,
      process_iter_error = None,
      after_list_error = None,
      os_view = os\<rparr>"

text \<open>Four processes whose scores are 10, 51, 80 and 50.\<close>

definition scores_pass :: pass_env where
  "scores_pass =
     pass_of quiet_os
       [Proc (Inr (mk_info 101 ''idle.exe'' 10 10)) [] [] clock0,
        Proc (Inr (mk_info 102 ''build.exe'' 85 0)) [] [] clock0,
        Proc (Inr (mk_info 103 ''render.exe'' 80 80)) [] [] clock0,
        Proc (Inr (mk_info 104 ''sync.exe'' 50 50)) [] [] clock0]"

text \<open>The initial settings with auto-boost switched on.\<close>

definition boosting_app :: app where
  "boosting_app = init_app\<lparr>auto_boost_enabled := True\<rparr>"

text \<open>Ten processes; reading the third, the sixth and the ninth raises.\<close>

definition ten_pass :: pass_env where
  "ten_pass =
     pass_of quiet_os
       [Proc (Inr (mk_info 1 ''a'' 1 1)) [] [] clock0,
        Proc (Inr (mk_info 2 ''b'' 2 2)) [] [] clock0,
        Proc (Inl NoSuchProcess) [] [] clock0,
        Proc (Inr (mk_info 4 ''d'' 4 4)) [] [] clock0,
        Proc (Inr (mk_info 5 ''e'' 5 5)) [] [] clock0,
        Proc (Inl AccessDenied) [] [] clock0,
        Proc (Inr (mk_info 7 ''g'' 7 7)) [] [] clock0,
        Proc (Inr (mk_info 8 ''h'' 8 8)) [] [] clock0,
        Proc (Inl NoSuchProcess) [] [] clock0,
        Proc (Inr (mk_info 10 ''j'' 10 10)) [] [] clock0]"

text \<open>The same pass when the \<^verbatim>\<open>root.after\<close> call for the process list raises.\<close>

definition dropped_pass :: pass_env where
  "dropped_pass = ten_pass\<lparr>after_list_error := Some OtherException\<rparr>"

text \<open>The pass of the four scores when that call raises.\<close>

definition unpublished_pass :: pass_env where
  "unpublished_pass = scores_pass\<lparr>after_list_error := Some OtherException\<rparr>"

text \<open>A process of which only the pid could be read.\<close>

definition bare_info :: proc_info where
  "bare_info =
     \<lparr>info_pid = 4, info_name = None, info_cpu_percent = None,
      info_memory_percent = None, info_status = None\<rparr>"

definition bare_pass :: pass_env where
  "bare_pass = pass_of quiet_os [Proc (Inr bare_info) [] [] clock0]"

text \<open>An operating system that refuses every priority change.\<close>

definition denying_os :: os where
  "denying_os =
     (\<lambda>p. \<lparr>lookup_error = None, nice_error = (\<lambda>v. Some AccessDenied),
            terminate_error = None, still_running = False, kill_error = None\<rparr>)"

text \<open>An operating system on which no process reacts to \<^verbatim>\<open>terminate\<close>.\<close>

definition stubborn_os :: os where
  "stubborn_os =
     (\<lambda>p. \<lparr>lookup_error = None, nice_error = (\<lambda>v. None), terminate_error = None,
            still_running = True, kill_error = None\<rparr>)"

text \<open>
  The settings are saved while a pass runs. Before the pass auto-boost is off with
  threshold 50 and level \<^verbatim>\<open>High\<close>; the user saves auto-boost on, threshold 90, level
  \<^verbatim>\<open>Low\<close>, which are the three assignments of \<open>save_settings True (Some 90) ''Low''\<close>.
  The first of two processes of score 60 is evaluated after the first of them, the
  second after the last.
\<close>

definition torn_pass :: pass_env where
  "torn_pass =
     pass_of quiet_os
       [Saved (SetEnabled True),
        Proc (Inr (mk_info 201 ''game.exe'' 100 0)) [] [] clock0,
        Saved (SetThreshold 90),
        Saved (SetLevel ''Low''),
        Proc (Inr (mk_info 202 ''video.exe'' 100 0)) [] [] clock0]"

text \<open>The same two processes in a pass during which nothing is saved.\<close>

definition settled_pass :: pass_env where
  "settled_pass =
     pass_of quiet_os
       [Proc (Inr (mk_info 201 ''game.exe'' 100 0)) [] [] clock0,
        Proc (Inr (mk_info 202 ''video.exe'' 100 0)) [] [] clock0]"

text \<open>
  A pass with one process of score 60 in which the level is assigned between the
  condition of the iteration and its call of \<^verbatim>\<open>boost_process_priority\<close>.
\<close>

definition split_pass :: pass_env where
  "split_pass =
     pass_of quiet_os
       [Proc (Inr (mk_info 201 ''game.exe'' 100 0)) [] [SetLevel ''Low''] clock0]"

definition saved_app :: app where
  "saved_app =
     init_app\<lparr>auto_boost_enabled := True, auto_boost_threshold := 90,
       auto_boost_level := ''Low''\<rparr>"

text \<open>A pass in which \<^verbatim>\<open>psutil.cpu_percent\<close> raises.\<close>

definition failing_pass :: pass_env where
  "failing_pass =
     (pass_of quiet_os [Proc (Inr (mk_info 101 ''idle.exe'' 10 10)) [] [] clock0])
       \<lparr>cpu_percent_result := Inl OtherException\<rparr>"

text \<open>A pass during which the window is closed.\<close>

definition closing_pass :: pass_env where
  "closing_pass =
     pass_of quiet_os
       [Proc (Inr (mk_info 101 ''idle.exe'' 10 10)) [] [] clock0,
        Closing clock0,
        Proc (Inr (mk_info 102 ''build.exe'' 85 0)) [] [] clock0]"

text \<open>One hundred and three log calls, the message of call \<open>i\<close> being the number \<open>i\<close>.\<close>

definition calls103 :: "(log_env \<times> string) list" where
  "calls103 = map (\<lambda>i. (clock0, str_nat i)) [0..<103]"

section \<open>Properties\<close>

subsection \<open>The bounded action log\<close>

lemma deque_append_drop:
  assumes "length d \<le> n"
  shows "deque_append n d x = drop (Suc (length d) - n) (d @ [x])"
proof (cases "length d = n")
  case True
  have "deque_append n d x = tl (d @ [x])"
    using True by (simp add: deque_append_def)
  also have "\<dots> = drop (Suc 0) (d @ [x])"
    by (simp only: drop_Suc drop_0)
  also have "Suc 0 = Suc (length d) - n"
    using True by simp
  finally show ?thesis .
next
  case False
  with assms have "length d < n" by simp
  then show ?thesis by (simp add: deque_append_def)
qed

lemma deque_append_length: "length d \<le> n \<Longrightarrow> length (deque_append n d x) \<le> n"
  by (auto simp: deque_append_def Let_def)

lemma foldl_deque_append:
  "length d \<le> n \<Longrightarrow>
   foldl (deque_append n) d xs = drop (length d + length xs - n) (d @ xs)"
proof (induction xs arbitrary: d)
  case Nil
  then show ?case by simp
next
  case (Cons x xs)
  define k where "k = Suc (length d) - n"
  let ?d = "deque_append n d x"
  have len: "length ?d \<le> n" using Cons.prems by (rule deque_append_length)
  have eq: "?d = drop k (d @ [x])"
    unfolding k_def using Cons.prems by (rule deque_append_drop)
  have k_le: "k \<le> Suc (length d)" by (simp add: k_def)
  have "drop k ((d @ [x]) @ xs) = drop k (d @ [x]) @ xs"
    using k_le by (subst drop_append) simp
  then have app: "?d @ xs = drop k (d @ x # xs)"
    by (simp only: eq append_assoc append_Cons append_Nil)
  have len_eq: "length ?d = Suc (length d) - k" by (simp add: eq)
  have ar: "length ?d + length xs - n + k = length d + length (x # xs) - n"
    unfolding len_eq using Cons.prems by (simp add: k_def)
  have "foldl (deque_append n) d (x # xs) = foldl (deque_append n) ?d xs" by simp
  also have "\<dots> = drop (length ?d + length xs - n) (?d @ xs)"
    using len by (rule Cons.IH)
  also have "\<dots> = drop (length ?d + length xs - n + k) (d @ x # xs)"
    by (simp only: app drop_drop)
  also have "\<dots> = drop (length d + length (x # xs) - n) (d @ x # xs)"
    by (simp only: ar)
  finally show ?case .
qed

lemma log_actions_history:
  "action_history (log_actions es a) =
     foldl (deque_append action_history_maxlen) (action_history a)
       (map (\<lambda>(le, message). log_entry (now le) message) es)"
  by (induction es arbitrary: a) (auto simp: log_action_def)

text \<open>
  C4. The action log keeps the most recent 100 entries: when the log holds at most
  100 entries and \<open>100 + k\<close> calls of \<^verbatim>\<open>log_action\<close> follow, the log is exactly the
  entries of the last 100 of these calls, in the order of the calls; the entries of
  the first \<open>k\<close> calls, and whatever the log held before, are gone.
\<close>

theorem action_log_keeps_last_entries:
  assumes "length (action_history a) \<le> action_history_maxlen"
    and "length es = action_history_maxlen + k"
  shows "action_history_maxlen = 100
     \<and> action_history (log_actions es a) =
         drop k (map (\<lambda>(le, message). log_entry (now le) message) es)
     \<and> length (action_history (log_actions es a)) = action_history_maxlen"
proof -
  let ?xs = "map (\<lambda>(le, message). log_entry (now le) message) es"
  let ?d = "action_history a"
  have len: "length ?xs = action_history_maxlen + k"
    using assms(2) by simp
  have "action_history (log_actions es a) =
          drop (length ?d + length ?xs - action_history_maxlen) (?d @ ?xs)"
    unfolding log_actions_history using assms(1) by (rule foldl_deque_append)
  also have "length ?d + length ?xs - action_history_maxlen = length ?d + k"
    unfolding len by simp
  also have "drop (length ?d + k) (?d @ ?xs) = drop k ?xs"
    by simp
  finally have eq: "action_history (log_actions es a) = drop k ?xs" .
  have "length (drop k ?xs) = action_history_maxlen"
    unfolding length_drop len by simp
  with eq show ?thesis
    by (simp add: action_history_maxlen_def)
qed

theorem action_log_keeps_last_entries_witness:
  "length (action_history init_app) \<le> action_history_maxlen
   \<and> length calls103 = action_history_maxlen + 3
   \<and> action_history (log_actions calls103 init_app) =
       drop 3 (map (\<lambda>(le, message). log_entry (now le) message) calls103)
   \<and> length (action_history (log_actions calls103 init_app)) = 100"
proof -
  have h1: "length (action_history init_app) \<le> action_history_maxlen"
    by (simp add: init_app_def)
  have h2: "length calls103 = action_history_maxlen + 3"
    by (simp add: calls103_def action_history_maxlen_def)
  show ?thesis
    using h1 h2 action_log_keeps_last_entries [OF h1 h2] by simp
qed

subsection \<open>The loop body and the \<^verbatim>\<open>for\<close> loop\<close>

lemma assign_other:
  "monitoring_active (assign w a) = monitoring_active a"
  "action_history (assign w a) = action_history a"
  "selected_pid (assign w a) = selected_pid a"
  by (cases w; simp add: assign_def)+

lemma assigns_other:
  "monitoring_active (fold assign ws a) = monitoring_active a"
  "action_history (fold assign ws a) = action_history a"
  by (induction ws arbitrary: a) (simp_all add: assign_other)

lemma assign_config: "policy_config (assign w a) = written w (policy_config a)"
  by (cases w) (simp_all add: assign_def written_def policy_config_def)

lemma assigns_config: "policy_config (fold assign ws a) = fold written ws (policy_config a)"
  by (induction ws arbitrary: a) (simp_all add: assign_config)

lemma loop_body_Inl:
  "loop_body plat os a (Inl e) g1 g2 le = (fold assign (g1 @ g2) a, [], [])"
  by (simp add: loop_body_def)

lemma loop_body_Inr:
  "loop_body plat os a (Inr info) g1 g2 le =
     (if auto_boost_enabled a \<and> score (sample_of info) > auto_boost_threshold (fold assign g1 a)
      then
        (snd (log_action le
                (auto_boost_message (info_pid info) (name (sample_of info)) (score (sample_of info)))
                (fold assign (g1 @ g2) a)),
         [sample_of info],
         snd (boost_process_priority plat os (info_pid info)
                (auto_boost_level (fold assign (g1 @ g2) a))))
      else (fold assign (g1 @ g2) a, [sample_of info], []))"
  by (simp add: loop_body_def sample_of_def Let_def split: prod.splits)

lemma boost_calls_append: "boost_calls (xs @ ys) = boost_calls xs @ boost_calls ys"
  by (simp add: boost_calls_def)

lemma published_append: "published (xs @ ys) = published xs @ published ys"
  by (simp add: published_def)

lemma sleeps_append: "sleeps (xs @ ys) = sleeps xs @ sleeps ys"
  by (simp add: sleeps_def)

lemma observe_Nil: "boost_calls [] = []" "published [] = []" "sleeps [] = []"
  by (simp_all add: boost_calls_def published_def sleeps_def)

lemma boost_effects:
  "boost_calls (snd (boost_process_priority plat os p l)) = [(p, l)]"
  "published (snd (boost_process_priority plat os p l)) = []"
  "sleeps (snd (boost_process_priority plat os p l)) = []"
  by (simp_all add: boost_process_priority_def boost_calls_def published_def sleeps_def Let_def
      split: option.splits)

lemma log_action_config: "policy_config (snd (log_action le m a)) = policy_config a"
  by (simp add: log_action_def policy_config_def)

lemma log_action_active: "monitoring_active (snd (log_action le m a)) = monitoring_active a"
  by (simp add: log_action_def)

lemma handle_event_samples:
  "fst (snd (handle_event plat os a ev)) = map sample_of (sampled [ev])"
  by (cases ev) (auto simp: handle_event_def sampled_def loop_body_Inl loop_body_Inr split: sum.splits)

lemma sampled_Cons: "sampled (ev # evs) = sampled [ev] @ sampled evs"
  by (simp add: sampled_def)

lemma for_loop_samples:
  "fst (snd (for_loop plat os a evs)) = map sample_of (sampled evs)"
proof (induction evs arbitrary: a)
  case Nil
  show ?case by (simp add: sampled_def)
next
  case (Cons ev evs)
  obtain a' s effs where h: "handle_event plat os a ev = (a', s, effs)"
    by (cases "handle_event plat os a ev")
  obtain a'' ss effs' where f: "for_loop plat os a' evs = (a'', ss, effs')"
    by (cases "for_loop plat os a' evs")
  have "s = map sample_of (sampled [ev])"
    using handle_event_samples [of plat os a ev] h by simp
  moreover have "ss = map sample_of (sampled evs)"
    using Cons.IH [of a'] f by simp
  ultimately show ?case
    using h f by (simp add: sampled_Cons [of ev evs])
qed

lemma handle_event_quiet:
  "published (snd (snd (handle_event plat os a ev))) = [] \<and>
   sleeps (snd (snd (handle_event plat os a ev))) = []"
proof (cases ev)
  case (Proc r g1 g2 le)
  then show ?thesis
    by (cases r) (simp_all add: handle_event_def loop_body_Inl loop_body_Inr boost_effects
        observe_Nil)
qed (simp_all add: handle_event_def observe_Nil)

lemma for_loop_quiet:
  "published (snd (snd (for_loop plat os a evs))) = [] \<and>
   sleeps (snd (snd (for_loop plat os a evs))) = []"
proof (induction evs arbitrary: a)
  case Nil
  show ?case by (simp add: observe_Nil)
next
  case (Cons ev evs)
  obtain a' s effs where h: "handle_event plat os a ev = (a', s, effs)"
    by (cases "handle_event plat os a ev")
  obtain a'' ss effs' where f: "for_loop plat os a' evs = (a'', ss, effs')"
    by (cases "for_loop plat os a' evs")
  have "published effs = [] \<and> sleeps effs = []"
    using handle_event_quiet [of plat os a ev] h by simp
  moreover have "published effs' = [] \<and> sleeps effs' = []"
    using Cons.IH [of a'] f by simp
  ultimately show ?case
    using h f by (simp add: published_append sleeps_append)
qed

subsection \<open>What a pass publishes\<close>

lemma monitor_pass_returns:
  assumes "system_calls_return env"
  shows "\<exists>st. monitor_pass plat a env =
           (None, fst (for_loop plat (os_view env) a (schedule env)),
            UpdateSystemStats st # snd (snd (for_loop plat (os_view env) a (schedule env)))
              @ [UpdateProcessList (map sample_of (sampled (schedule env)))])"
proof -
  obtain a' ss effs where f: "for_loop plat (os_view env) a (schedule env) = (a', ss, effs)"
    by (cases "for_loop plat (os_view env) a (schedule env)")
  have ss: "ss = map sample_of (sampled (schedule env))"
    using for_loop_samples [of plat "os_view env" a "schedule env"] f by simp
  obtain c where c: "cpu_percent_result env = Inr c"
    using assms by (cases "cpu_percent_result env") (simp_all add: system_calls_return_def)
  obtain m where m: "virtual_memory_result env = Inr m"
    using assms by (cases "virtual_memory_result env") (simp_all add: system_calls_return_def)
  have rest: "after_stats_error env = None" "process_iter_error env = None"
    "after_list_error env = None"
    using assms by (simp_all add: system_calls_return_def)
  show ?thesis
    by (simp add: monitor_pass_def Let_def c m rest f ss)
qed

lemma published_pass_returns:
  assumes "system_calls_return env"
  shows "published (snd (snd (monitor_pass plat a env))) = [map sample_of (sampled (schedule env))]"
proof -
  obtain st where "monitor_pass plat a env =
           (None, fst (for_loop plat (os_view env) a (schedule env)),
            UpdateSystemStats st # snd (snd (for_loop plat (os_view env) a (schedule env)))
              @ [UpdateProcessList (map sample_of (sampled (schedule env)))])"
    using monitor_pass_returns [OF assms] by blast
  moreover have "published [UpdateSystemStats st] = []"
    "published [UpdateProcessList (map sample_of (sampled (schedule env)))]
       = [map sample_of (sampled (schedule env))]"
    by (simp_all add: published_def)
  ultimately show ?thesis
    using published_append [of "[UpdateSystemStats st]"
        "snd (snd (for_loop plat (os_view env) a (schedule env)))
              @ [UpdateProcessList (map sample_of (sampled (schedule env)))]"]
    by (simp add: published_append for_loop_quiet)
qed

lemma published_pass_fails:
  assumes "\<not> system_calls_return env"
  shows "published (snd (snd (monitor_pass plat a env))) = []"
proof -
  obtain a' ss effs where f: "for_loop plat (os_view env) a (schedule env) = (a', ss, effs)"
    by (cases "for_loop plat (os_view env) a (schedule env)")
  have q: "published effs = []"
    using for_loop_quiet [of plat "os_view env" a "schedule env"] f by simp
  show ?thesis
    using assms q
    by (auto simp: monitor_pass_def Let_def f system_calls_return_def published_def
        split: sum.splits option.splits)
qed

lemma published_pass_cases:
  "published (snd (snd (monitor_pass plat a env))) = [] \<or>
   published (snd (snd (monitor_pass plat a env))) = [map sample_of (sampled (schedule env))]"
  using published_pass_returns [of env plat a] published_pass_fails [of env plat a]
  by blast

lemma monitor_pass_raises:
  "(fst (monitor_pass plat a env) = None) = system_calls_return env"
  by (cases "for_loop plat (os_view env) a (schedule env)")
    (auto simp: monitor_pass_def Let_def system_calls_return_def
      split: sum.splits option.splits)

lemma sampled_simps:
  "sampled [] = []"
  "sampled (Proc (Inr info) g1 g2 le # evs) = info # sampled evs"
  "sampled (Proc (Inl e) g1 g2 le # evs) = sampled evs"
  "sampled (Saved w # evs) = sampled evs"
  "sampled (Closing le # evs) = sampled evs"
  by (simp_all add: sampled_def)

lemma pass_of_returns: "system_calls_return (pass_of os evs)"
  by (simp add: system_calls_return_def pass_of_def)

lemma schedule_pass_of: "schedule (pass_of os evs) = evs"
  by (simp add: pass_of_def)

text \<open>
  C1. \<^verbatim>\<open>calculate_score\<close> returns \<open>0.6 * cpu + 0.4 * ram\<close> for all inputs, the
  non-negative ones and those above 100 included; and in every process list that a
  pass hands to \<^verbatim>\<open>update_process_list\<close>, the score of each sample is this function of
  the cpu and ram values of the same sample.
\<close>

theorem score_is_weighted_sum:
  "calculate_score c r = 0.6 * c + 0.4 * r
   \<and> (\<forall>ss\<in>set (published (snd (snd (monitor_pass plat a env)))). \<forall>s\<in>set ss.
         score s = calculate_score (cpu s) (ram s) \<and> score s = 0.6 * cpu s + 0.4 * ram s)"
proof -
  have "\<forall>s\<in>set (map sample_of (sampled (schedule env))).
          score s = calculate_score (cpu s) (ram s) \<and> score s = 0.6 * cpu s + 0.4 * ram s"
    by (auto simp: sample_of_def calculate_score_def)
  then show ?thesis
    using published_pass_cases [of plat a env]
    by (auto simp: calculate_score_def)
qed

theorem score_is_weighted_sum_witness:
  "calculate_score 85 0 = 51
   \<and> (\<exists>ss\<in>set (published (snd (snd (monitor_pass ''win32'' boosting_app scores_pass)))).
        \<exists>s\<in>set ss. pid s = 102 \<and> cpu s = 85 \<and> ram s = 0 \<and> score s = 51
          \<and> score s = 0.6 * cpu s + 0.4 * ram s)"
proof -
  let ?s = "sample_of (mk_info 102 ''build.exe'' 85 0)"
  have pub: "published (snd (snd (monitor_pass ''win32'' boosting_app scores_pass))) =
          [map sample_of (sampled (schedule scores_pass))]"
    by (rule published_pass_returns) (simp add: scores_pass_def pass_of_returns)
  have mem: "?s \<in> set (map sample_of (sampled (schedule scores_pass)))"
    by (simp add: scores_pass_def schedule_pass_of sampled_simps)
  have fields: "pid ?s = 102 \<and> cpu ?s = 85 \<and> ram ?s = 0"
    by (simp add: sample_of_def mk_info_def or_float_def)
  have inst: "calculate_score 85 0 = 0.6 * 85 + 0.4 * 0
   \<and> (\<forall>ss\<in>set (published (snd (snd (monitor_pass ''win32'' boosting_app scores_pass)))).
        \<forall>s\<in>set ss. score s = calculate_score (cpu s) (ram s)
           \<and> score s = 0.6 * cpu s + 0.4 * ram s)"
    by (rule score_is_weighted_sum)
  from inst have "calculate_score 85 0 = 0.6 * 85 + 0.4 * 0" by (rule conjunct1)
  then have c: "calculate_score 85 0 = 51" by simp
  have in_pub: "map sample_of (sampled (schedule scores_pass))
      \<in> set (published (snd (snd (monitor_pass ''win32'' boosting_app scores_pass))))"
    unfolding pub by simp
  have sc: "score ?s = 0.6 * cpu ?s + 0.4 * ram ?s"
    using inst in_pub mem by blast
  have "score ?s = 51" using sc fields by simp
  with sc fields have "pid ?s = 102 \<and> cpu ?s = 85 \<and> ram ?s = 0 \<and> score ?s = 51
          \<and> score ?s = 0.6 * cpu ?s + 0.4 * ram ?s"
    by blast
  with in_pub mem c show ?thesis by blast
qed

text \<open>
  C5, as stated, fails: a pass can be given up without publishing anything. In the
  first pass reading three of the ten processes raises, and the \<^verbatim>\<open>root.after\<close>
  call that hands over the process list raises as well: the outer handler takes the
  exception and no list is published. In the second pass the same call raises after
  two processes were boosted: the boosts are done and no list is published.
\<close>

theorem pass_given_up_counterexample:
  "length (filter is_iteration (schedule dropped_pass)) = 10
   \<and> length (sampled (schedule dropped_pass)) = 7
   \<and> fst (monitor_pass ''win32'' init_app dropped_pass) = Some OtherException
   \<and> published (snd (snd (monitor_pass ''win32'' init_app dropped_pass))) = []
   \<and> fst (monitor_pass ''win32'' boosting_app unpublished_pass) = Some OtherException
   \<and> published (snd (snd (monitor_pass ''win32'' boosting_app unpublished_pass))) = []
   \<and> boost_calls (snd (snd (monitor_pass ''win32'' boosting_app unpublished_pass)))
        = [(102, ''High''), (103, ''High'')]"
proof -
  have 1: "length (filter is_iteration (schedule dropped_pass)) = 10
     \<and> length (sampled (schedule dropped_pass)) = 7"
    by (simp add: dropped_pass_def ten_pass_def pass_of_def is_iteration_def sampled_simps)
  have 2: "\<not> system_calls_return dropped_pass" "\<not> system_calls_return unpublished_pass"
    by (simp_all add: system_calls_return_def dropped_pass_def unpublished_pass_def
        ten_pass_def scores_pass_def pass_of_def)
  have 3: "fst (monitor_pass ''win32'' init_app dropped_pass) = Some OtherException"
    by (cases "for_loop ''win32'' (os_view dropped_pass) init_app (schedule dropped_pass)")
      (simp add: monitor_pass_def Let_def dropped_pass_def ten_pass_def pass_of_def)
  have 4: "fst (monitor_pass ''win32'' boosting_app unpublished_pass) = Some OtherException"
    by (cases "for_loop ''win32'' (os_view unpublished_pass) boosting_app
          (schedule unpublished_pass)")
      (simp add: monitor_pass_def Let_def unpublished_pass_def scores_pass_def pass_of_def)
  have 5: "boost_calls (snd (snd (monitor_pass ''win32'' boosting_app unpublished_pass)))
        = [(102, ''High''), (103, ''High'')]"
    by (simp add: monitor_pass_def unpublished_pass_def scores_pass_def pass_of_def
        handle_event_def loop_body_def boost_process_priority_def nice_value_def
        PRIORITY_LEVELS_Windows_def log_action_def deque_append_def action_history_maxlen_def
        mk_info_def or_str_def or_float_def calculate_score_def boost_calls_def Let_def
        boosting_app_def init_app_def quiet_os_def)
  from 1 3 4 5 published_pass_fails [OF 2(1)] published_pass_fails [OF 2(2)]
  show ?thesis by simp
qed

text \<open>
  C5, amended. An iteration that raises while it reads its process, whatever the
  exception, appends no sample and has no effect, and the samples of the other
  iterations are unchanged by it. A pass leaves its \<^verbatim>\<open>try\<close> body without an
  exception exactly when its calls outside the loop body return (\<^verbatim>\<open>cpu_percent\<close>,
  \<^verbatim>\<open>virtual_memory\<close>, \<^verbatim>\<open>process_iter\<close> and the two \<^verbatim>\<open>root.after\<close>; a failing
  \<^verbatim>\<open>disk_usage\<close> does not count). It then hands exactly one process list to
  \<^verbatim>\<open>update_process_list\<close>: the complete samples, in order, of the iterations that
  read their process. Otherwise it hands over none.
\<close>

theorem pass_publishes_survivors:
  "(fst (monitor_pass plat a env) = None) = system_calls_return env
   \<and> published (snd (snd (monitor_pass plat a env)))
       = (if system_calls_return env then [map sample_of (sampled (schedule env))] else [])
   \<and> fst (snd (loop_body plat os a (Inl e) g1 g2 le)) = []
   \<and> snd (snd (loop_body plat os a (Inl e) g1 g2 le)) = []
   \<and> sampled (evs1 @ Proc (Inl e) g1 g2 le # evs2) = sampled evs1 @ sampled evs2
   \<and> sampled (evs1 @ Proc (Inr info) g1 g2 le # evs2) = sampled evs1 @ info # sampled evs2"
proof -
  have "sampled (evs1 @ Proc (Inl e) g1 g2 le # evs2) = sampled evs1 @ sampled evs2"
    "sampled (evs1 @ Proc (Inr info) g1 g2 le # evs2) = sampled evs1 @ info # sampled evs2"
    by (simp_all add: sampled_def)
  then show ?thesis
    using published_pass_returns [of env plat a] published_pass_fails [of env plat a]
    by (simp add: monitor_pass_raises loop_body_Inl)
qed

theorem pass_publishes_survivors_witness:
  "system_calls_return ten_pass
   \<and> length (filter is_iteration (schedule ten_pass)) = 10
   \<and> fst (monitor_pass ''win32'' init_app ten_pass) = None
   \<and> map (map pid) (published (snd (snd (monitor_pass ''win32'' init_app ten_pass))))
       = [[1, 2, 4, 5, 7, 8, 10]]"
proof -
  have h: "system_calls_return ten_pass"
    by (simp add: ten_pass_def pass_of_returns)
  have n: "length (filter is_iteration (schedule ten_pass)) = 10"
    by (simp add: ten_pass_def schedule_pass_of is_iteration_def)
  have s: "map pid (map sample_of (sampled (schedule ten_pass))) = [1, 2, 4, 5, 7, 8, 10]"
    by (simp add: ten_pass_def schedule_pass_of sampled_simps sample_of_def mk_info_def)
  show ?thesis
    using h n s pass_publishes_survivors [of "''win32''" init_app ten_pass]
    by simp
qed

text \<open>
  C10. In a pass whose calls outside the loop body return, every process whose
  \<^verbatim>\<open>info\<close> was read has a sample in the published list, with its pid; a name that
  is \<^verbatim>\<open>None\<close> becomes \<^verbatim>\<open>'N/A'\<close>, a cpu or memory percentage that is \<^verbatim>\<open>None\<close>
  becomes 0, and the score is the weighted sum of the substituted values.
\<close>

theorem missing_metrics_are_substituted:
  assumes "system_calls_return env" and "Proc (Inr info) g1 g2 le \<in> set (schedule env)"
  shows "\<exists>ss s. published (snd (snd (monitor_pass plat a env))) = [ss] \<and> s \<in> set ss
     \<and> pid s = info_pid info
     \<and> (info_name info = None \<longrightarrow> name s = ''N/A'')
     \<and> (info_cpu_percent info = None \<longrightarrow> cpu s = 0)
     \<and> (info_memory_percent info = None \<longrightarrow> ram s = 0)
     \<and> name s = or_str (info_name info) ''N/A''
     \<and> cpu s = or_float (info_cpu_percent info) 0
     \<and> ram s = or_float (info_memory_percent info) 0
     \<and> score s = 0.6 * cpu s + 0.4 * ram s
     \<and> status s = info_status info"
proof -
  have "info \<in> set (sampled (schedule env))"
    using assms(2) by (force simp: sampled_def)
  then have mem: "sample_of info \<in> set (map sample_of (sampled (schedule env)))"
    by simp
  have fields: "pid (sample_of info) = info_pid info
     \<and> (info_name info = None \<longrightarrow> name (sample_of info) = ''N/A'')
     \<and> (info_cpu_percent info = None \<longrightarrow> cpu (sample_of info) = 0)
     \<and> (info_memory_percent info = None \<longrightarrow> ram (sample_of info) = 0)
     \<and> name (sample_of info) = or_str (info_name info) ''N/A''
     \<and> cpu (sample_of info) = or_float (info_cpu_percent info) 0
     \<and> ram (sample_of info) = or_float (info_memory_percent info) 0
     \<and> score (sample_of info) = 0.6 * cpu (sample_of info) + 0.4 * ram (sample_of info)
     \<and> status (sample_of info) = info_status info"
    by (simp add: sample_of_def or_str_def or_float_def calculate_score_def)
  show ?thesis
    apply (rule exI [where x = "map sample_of (sampled (schedule env))"])
    apply (rule exI [where x = "sample_of info"])
    using published_pass_returns [OF assms(1), of plat a] mem fields
    apply (intro conjI)
    apply (elim conjE, assumption)+
    done
qed

theorem missing_metrics_are_substituted_witness:
  "system_calls_return bare_pass \<and> Proc (Inr bare_info) [] [] clock0 \<in> set (schedule bare_pass)
   \<and> info_name bare_info = None \<and> info_cpu_percent bare_info = None
   \<and> info_memory_percent bare_info = None
   \<and> (\<exists>ss s. published (snd (snd (monitor_pass ''win32'' init_app bare_pass))) = [ss]
         \<and> s \<in> set ss \<and> pid s = 4 \<and> name s = ''N/A'' \<and> cpu s = 0 \<and> ram s = 0 \<and> score s = 0)"
proof -
  have h1: "system_calls_return bare_pass"
    by (simp add: bare_pass_def pass_of_returns)
  have h2: "Proc (Inr bare_info) [] [] clock0 \<in> set (schedule bare_pass)"
    by (simp add: bare_pass_def schedule_pass_of)
  have h3: "info_name bare_info = None \<and> info_cpu_percent bare_info = None
     \<and> info_memory_percent bare_info = None \<and> info_pid bare_info = 4"
    by (simp add: bare_info_def)
  from missing_metrics_are_substituted [OF h1 h2, of "''win32''" init_app]
  obtain ss s where "published (snd (snd (monitor_pass ''win32'' init_app bare_pass))) = [ss]"
    "s \<in> set ss" "pid s = info_pid bare_info"
    "info_name bare_info = None \<longrightarrow> name s = ''N/A''"
    "info_cpu_percent bare_info = None \<longrightarrow> cpu s = 0"
    "info_memory_percent bare_info = None \<longrightarrow> ram s = 0"
    "score s = 0.6 * cpu s + 0.4 * ram s"
    by (elim exE conjE)
  with h3 have "published (snd (snd (monitor_pass ''win32'' init_app bare_pass))) = [ss]
         \<and> s \<in> set ss \<and> pid s = 4 \<and> name s = ''N/A'' \<and> cpu s = 0 \<and> ram s = 0 \<and> score s = 0"
    by simp
  with h1 h2 h3 show ?thesis by blast
qed

subsection \<open>The automatic boost\<close>

lemma handle_event_config:
  assumes "\<not> is_config_write ev"
  shows "policy_config (fst (handle_event plat os a ev)) = policy_config a"
proof (cases ev)
  case (Proc r g1 g2 le)
  with assms have "g1 = []" "g2 = []"
    by (simp_all add: is_config_write_def)
  with Proc show ?thesis
    by (cases r) (simp_all add: handle_event_def loop_body_Inl loop_body_Inr log_action_config)
next
  case (Saved w)
  with assms show ?thesis by (simp add: is_config_write_def)
next
  case (Closing le)
  then show ?thesis
    by (simp add: handle_event_def on_closing_def log_action_config policy_config_def
        log_action_def)
qed

lemma handle_event_boosts:
  assumes "\<not> is_config_write ev"
  shows "boost_calls (snd (snd (handle_event plat os a ev))) =
     [(info_pid info, auto_boost_level a). info \<leftarrow> sampled [ev],
        auto_boost_enabled a \<and> score (sample_of info) > auto_boost_threshold a]"
proof (cases ev)
  case (Proc r g1 g2 le)
  with assms have "g1 = []" "g2 = []"
    by (simp_all add: is_config_write_def)
  with Proc show ?thesis
    by (cases r) (simp_all add: handle_event_def loop_body_Inl loop_body_Inr boost_effects
        observe_Nil sampled_simps)
qed (simp_all add: handle_event_def observe_Nil sampled_simps)

lemma for_loop_boosts:
  assumes "\<forall>ev\<in>set evs. \<not> is_config_write ev"
  shows "boost_calls (snd (snd (for_loop plat os a evs))) =
     [(info_pid info, auto_boost_level a). info \<leftarrow> sampled evs,
        auto_boost_enabled a \<and> score (sample_of info) > auto_boost_threshold a]"
  using assms
proof (induction evs arbitrary: a)
  case Nil
  show ?case by (simp add: observe_Nil sampled_simps)
next
  case (Cons ev evs)
  obtain a' s effs where h: "handle_event plat os a ev = (a', s, effs)"
    by (cases "handle_event plat os a ev")
  obtain a'' ss effs' where f: "for_loop plat os a' evs = (a'', ss, effs')"
    by (cases "for_loop plat os a' evs")
  have "policy_config a' = policy_config a"
    using handle_event_config [of ev plat os a] h Cons.prems by simp
  then have same: "auto_boost_enabled a' = auto_boost_enabled a"
    "auto_boost_threshold a' = auto_boost_threshold a"
    "auto_boost_level a' = auto_boost_level a"
    by (simp_all add: policy_config_def)
  have e1: "boost_calls effs =
     [(info_pid info, auto_boost_level a). info \<leftarrow> sampled [ev],
        auto_boost_enabled a \<and> score (sample_of info) > auto_boost_threshold a]"
    using handle_event_boosts [of ev plat os a] h Cons.prems by simp
  have e2: "boost_calls effs' =
     [(info_pid info, auto_boost_level a). info \<leftarrow> sampled evs,
        auto_boost_enabled a \<and> score (sample_of info) > auto_boost_threshold a]"
    using Cons.IH [of a'] Cons.prems f unfolding same by simp
  have "boost_calls (snd (snd (for_loop plat os a (ev # evs)))) = boost_calls effs @ boost_calls effs'"
    using h f by (simp add: boost_calls_append)
  then show ?case
    unfolding e1 e2 by (simp add: sampled_Cons [of ev evs])
qed

lemma for_loop_config:
  assumes "\<forall>ev\<in>set evs. \<not> is_config_write ev"
  shows "policy_config (fst (for_loop plat os a evs)) = policy_config a"
  using assms
proof (induction evs arbitrary: a)
  case Nil
  show ?case by simp
next
  case (Cons ev evs)
  obtain a' s effs where h: "handle_event plat os a ev = (a', s, effs)"
    by (cases "handle_event plat os a ev")
  obtain a'' ss effs' where f: "for_loop plat os a' evs = (a'', ss, effs')"
    by (cases "for_loop plat os a' evs")
  have "policy_config a' = policy_config a"
    using handle_event_config [of ev plat os a] h Cons.prems by simp
  moreover have "policy_config a'' = policy_config a'"
    using Cons.IH [of a'] Cons.prems f by simp
  ultimately show ?case
    using h f by simp
qed

lemma boost_calls_pass_returns:
  assumes "system_calls_return env"
  shows "boost_calls (snd (snd (monitor_pass plat a env))) =
           boost_calls (snd (snd (for_loop plat (os_view env) a (schedule env))))"
proof -
  obtain st where "monitor_pass plat a env =
           (None, fst (for_loop plat (os_view env) a (schedule env)),
            UpdateSystemStats st # snd (snd (for_loop plat (os_view env) a (schedule env)))
              @ [UpdateProcessList (map sample_of (sampled (schedule env)))])"
    using monitor_pass_returns [OF assms] by blast
  moreover have "boost_calls [UpdateSystemStats st] = []"
    "boost_calls [UpdateProcessList (map sample_of (sampled (schedule env)))] = []"
    by (simp_all add: boost_calls_def)
  ultimately show ?thesis
    using boost_calls_append [of "[UpdateSystemStats st]"
        "snd (snd (for_loop plat (os_view env) a (schedule env)))
              @ [UpdateProcessList (map sample_of (sampled (schedule env)))]"]
    by (simp add: boost_calls_append)
qed

text \<open>
  C2. An iteration that read its process calls \<^verbatim>\<open>boost_process_priority\<close>, once and
  with the configured level, exactly when auto-boost is enabled and the score is
  strictly greater than the threshold; an iteration that raised calls nothing. When
  the Tk thread assigns settings inside the iteration, the switch is the one the
  iteration found, the threshold the one after the first group of assignments, and
  the level the one after both. In a
  pass whose calls outside the loop body return and during which the settings are
  not written, the calls of the pass are therefore, in order, one for each sampled
  process whose score is above the threshold when auto-boost is enabled, and none
  otherwise.
\<close>

theorem auto_boost_rule:
  "boost_calls (snd (snd (loop_body plat os a (Inr info) [] [] le))) =
      (if auto_boost_enabled a \<and> score (sample_of info) > auto_boost_threshold a
       then [(info_pid info, auto_boost_level a)] else [])
   \<and> boost_calls (snd (snd (loop_body plat os a (Inr info) g1 g2 le))) =
      (if auto_boost_enabled a \<and> score (sample_of info) > auto_boost_threshold (fold assign g1 a)
       then [(info_pid info, auto_boost_level (fold assign (g1 @ g2) a))] else [])
   \<and> boost_calls (snd (snd (loop_body plat os a (Inl e) g1 g2 le))) = []
   \<and> (system_calls_return env \<and> (\<forall>ev\<in>set (schedule env). \<not> is_config_write ev) \<longrightarrow>
        boost_calls (snd (snd (monitor_pass plat a env))) =
          [(info_pid i, auto_boost_level a). i \<leftarrow> sampled (schedule env),
             auto_boost_enabled a \<and> score (sample_of i) > auto_boost_threshold a])"
proof (intro conjI impI)
  show "boost_calls (snd (snd (loop_body plat os a (Inr info) [] [] le))) =
      (if auto_boost_enabled a \<and> score (sample_of info) > auto_boost_threshold a
       then [(info_pid info, auto_boost_level a)] else [])"
    by (simp add: loop_body_Inr boost_effects observe_Nil)
  show "boost_calls (snd (snd (loop_body plat os a (Inr info) g1 g2 le))) =
      (if auto_boost_enabled a \<and> score (sample_of info) > auto_boost_threshold (fold assign g1 a)
       then [(info_pid info, auto_boost_level (fold assign (g1 @ g2) a))] else [])"
    by (simp add: loop_body_Inr boost_effects observe_Nil)
  show "boost_calls (snd (snd (loop_body plat os a (Inl e) g1 g2 le))) = []"
    by (simp add: loop_body_Inl observe_Nil)
next
  assume h: "system_calls_return env \<and> (\<forall>ev\<in>set (schedule env). \<not> is_config_write ev)"
  then have "boost_calls (snd (snd (monitor_pass plat a env))) =
           boost_calls (snd (snd (for_loop plat (os_view env) a (schedule env))))"
    by (simp add: boost_calls_pass_returns)
  also have "\<dots> = [(info_pid i, auto_boost_level a). i \<leftarrow> sampled (schedule env),
             auto_boost_enabled a \<and> score (sample_of i) > auto_boost_threshold a]"
    using h by (simp add: for_loop_boosts)
  finally show "boost_calls (snd (snd (monitor_pass plat a env))) =
          [(info_pid i, auto_boost_level a). i \<leftarrow> sampled (schedule env),
             auto_boost_enabled a \<and> score (sample_of i) > auto_boost_threshold a]" .
qed

theorem auto_boost_rule_witness:
  "system_calls_return scores_pass
   \<and> filter is_config_write (schedule scores_pass) = []
   \<and> auto_boost_enabled boosting_app \<and> auto_boost_threshold boosting_app = 50
   \<and> map (\<lambda>i. (info_pid i, score (sample_of i))) (sampled (schedule scores_pass))
        = [(101, 10), (102, 51), (103, 80), (104, 50)]
   \<and> boost_calls (snd (snd (monitor_pass ''win32'' boosting_app scores_pass)))
        = [(102, ''High''), (103, ''High'')]"
proof -
  have h1: "system_calls_return scores_pass"
    by (simp add: scores_pass_def pass_of_returns)
  have h2: "\<forall>ev\<in>set (schedule scores_pass). \<not> is_config_write ev"
    by (simp add: scores_pass_def schedule_pass_of is_config_write_def)
  have cfg: "auto_boost_enabled boosting_app" "auto_boost_threshold boosting_app = 50"
    "auto_boost_level boosting_app = ''High''"
    by (simp_all add: boosting_app_def init_app_def)
  have sc: "map (\<lambda>i. (info_pid i, score (sample_of i))) (sampled (schedule scores_pass))
        = [(101, 10), (102, 51), (103, 80), (104, 50)]"
    by (simp add: scores_pass_def schedule_pass_of sampled_simps sample_of_def mk_info_def
        or_float_def calculate_score_def)
  have "boost_calls (snd (snd (monitor_pass ''win32'' boosting_app scores_pass))) =
          [(info_pid i, auto_boost_level boosting_app). i \<leftarrow> sampled (schedule scores_pass),
             auto_boost_enabled boosting_app
             \<and> score (sample_of i) > auto_boost_threshold boosting_app]"
    using auto_boost_rule [of "''win32''" quiet_os boosting_app bare_info clock0 "[]" "[]"
        NoSuchProcess scores_pass] h1 h2
    by blast
  also have "\<dots> = [(102, ''High''), (103, ''High'')]"
    by (simp add: cfg scores_pass_def schedule_pass_of sampled_simps sample_of_def mk_info_def
        or_float_def calculate_score_def)
  finally show ?thesis
    using h1 h2 cfg sc by (simp add: filter_empty_conv)
qed

lemmas fmt = str_int_def str_nat.simps digit_char_def format_2f_def round_half_even_def
  log_entry_def auto_boost_message_def

text \<open>
  C3, evaluated where the priority change is refused. On Windows, with auto-boost
  enabled and threshold 50, the process \<^verbatim>\<open>System\<close> (pid 4) has score 60 and the
  operating system answers \<^verbatim>\<open>nice\<close> with \<^verbatim>\<open>AccessDenied\<close>:
  \<^verbatim>\<open>boost_process_priority\<close> returns \<open>False\<close>, and the action log all the same
  receives the entry that reports the boost, the same entry as when the operating
  system accepts the change.
\<close>

theorem failed_auto_boost_is_logged:
  "fst (boost_process_priority ''win32'' denying_os 4 ''High'') = False
   \<and> snd (boost_process_priority ''win32'' denying_os 4 ''High'')
       = [Boost 4 ''High'', Nice 4 (PriorityClass HIGH_PRIORITY_CLASS)]
   \<and> action_history
         (fst (loop_body ''win32'' denying_os boosting_app
                 (Inr (mk_info 4 ''System'' 100 0)) [] [] clock0))
       = [''[2025-03-01 12:00:00] Auto-boosted PID 4 (System) - Score: 60.00'' @ [CHR 0x0A]]
   \<and> action_history
         (fst (loop_body ''win32'' quiet_os boosting_app
                 (Inr (mk_info 4 ''System'' 100 0)) [] [] clock0))
       = [''[2025-03-01 12:00:00] Auto-boosted PID 4 (System) - Score: 60.00'' @ [CHR 0x0A]]"
  by (simp add: loop_body_def boost_process_priority_def denying_os_def quiet_os_def nice_value_def
      PRIORITY_LEVELS_Windows_def boosting_app_def init_app_def mk_info_def or_str_def
      or_float_def calculate_score_def log_action_def deque_append_def
      action_history_maxlen_def clock0_def fmt Let_def)

subsection \<open>Termination of a process\<close>

text \<open>
  C6. For a process that \<^verbatim>\<open>psutil.Process\<close> finds, \<^verbatim>\<open>kill_process\<close> first calls
  \<^verbatim>\<open>terminate\<close>. When that call returns and the process is still running after the
  sleep of half a second, \<^verbatim>\<open>kill\<close> is called, and when \<^verbatim>\<open>kill\<close> returns the result
  is \<open>True\<close>: the effects are terminate, sleep 0.5, is_running, kill, in this order.
\<close>

theorem kill_escalates:
  assumes "lookup_error (os p) = None"
  shows "(\<exists>rest. snd (kill_process os p) = Terminate p # rest)
     \<and> (terminate_error (os p) = None \<and> still_running (os p) \<and> kill_error (os p) = None \<longrightarrow>
          kill_process os p = (True, [Terminate p, Sleep 0.5, IsRunning p, Kill p]))"
  using assms by (auto simp: kill_process_def split: option.splits)

theorem kill_escalates_witness:
  "lookup_error (stubborn_os 4242) = None \<and> terminate_error (stubborn_os 4242) = None
   \<and> still_running (stubborn_os 4242) \<and> kill_error (stubborn_os 4242) = None
   \<and> kill_process stubborn_os 4242 = (True, [Terminate 4242, Sleep 0.5, IsRunning 4242, Kill 4242])"
proof -
  have h: "lookup_error (stubborn_os 4242) = None"
    and g: "terminate_error (stubborn_os 4242) = None \<and> still_running (stubborn_os 4242)
      \<and> kill_error (stubborn_os 4242) = None"
    by (simp_all add: stubborn_os_def)
  from kill_escalates [of stubborn_os 4242, OF h] g
  have "kill_process stubborn_os 4242 = (True, [Terminate 4242, Sleep 0.5, IsRunning 4242, Kill 4242])"
    by blast
  with h g show ?thesis by blast
qed

subsection \<open>The interactive boost\<close>

lemma high_is_mapped: "''High'' \<in> set (map fst (priority_map plat))"
  by (simp add: priority_map_def PRIORITY_LEVELS_Windows_def PRIORITY_LEVELS_Linux_def)

lemma nice_value_unmapped:
  assumes "typed \<notin> set (map fst (priority_map plat))"
  shows "nice_value plat typed = nice_value plat ''High''"
proof (cases "plat = ''win32''")
  case True
  with assms have "map_of PRIORITY_LEVELS_Windows typed = None"
    by (simp add: priority_map_def map_of_eq_None_iff)
  moreover have "map_of PRIORITY_LEVELS_Windows ''High'' = Some (PriorityClass HIGH_PRIORITY_CLASS)"
    by (simp add: PRIORITY_LEVELS_Windows_def)
  ultimately show ?thesis using True by (simp add: nice_value_def)
next
  case False
  with assms have "map_of PRIORITY_LEVELS_Linux typed = None"
    by (simp add: priority_map_def map_of_eq_None_iff)
  moreover have "map_of PRIORITY_LEVELS_Linux ''High'' = Some (NiceValue (- 5))"
    by (simp add: PRIORITY_LEVELS_Linux_def)
  ultimately show ?thesis using False by (simp add: nice_value_def)
qed

text \<open>
  C7, as stated, fails: on Windows the user selects pid 4242 and types \<^verbatim>\<open>Turbo\<close>,
  which is no key of the priority map. Nothing reports the level as unsupported: the
  process is boosted to \<^verbatim>\<open>HIGH_PRIORITY_CLASS\<close>, and the message box, the status line
  and the log report a boost to \<^verbatim>\<open>High\<close>.
\<close>

theorem unmapped_level_counterexample:
  "''Turbo'' \<notin> set (map fst (priority_map ''win32''))
   \<and> snd (boost_selected_process ''win32'' quiet_os (init_app\<lparr>selected_pid := Some 4242\<rparr>)
           (Some ''Turbo'') clock0)
       = [AskString ''Priority Level'' (ask_prompt ''win32''),
          Boost 4242 ''High'',
          Nice 4242 (PriorityClass HIGH_PRIORITY_CLASS),
          ShowInfo ''Success'' ''Process 4242 priority set to High!'',
          SetStatus ''Status: Process 4242 boosted to High'']
   \<and> action_history
        (fst (boost_selected_process ''win32'' quiet_os (init_app\<lparr>selected_pid := Some 4242\<rparr>)
           (Some ''Turbo'') clock0))
       = [''[2025-03-01 12:00:00] Boosted PID 4242 to High priority'' @ [CHR 0x0A]]"
  by (simp add: boost_selected_process_def boost_process_priority_def quiet_os_def nice_value_def
      priority_map_def PRIORITY_LEVELS_Windows_def init_app_def log_action_def deque_append_def
      action_history_maxlen_def clock0_def fmt Let_def)

text \<open>
  C7, amended. A level typed by the user that is no key of the platform's priority
  map is replaced by \<^verbatim>\<open>'High'\<close> before the boost: the interactive boost then does
  exactly what it does when the user types \<^verbatim>\<open>High\<close>. The value handed to
  \<^verbatim>\<open>process.nice\<close> for such a level, on any path, is the one of \<^verbatim>\<open>'High'\<close>.
\<close>

theorem unmapped_level_falls_back_to_high:
  assumes "typed \<notin> set (map fst (priority_map plat))"
  shows "boost_selected_process plat os a (Some typed) le
           = boost_selected_process plat os a (Some ''High'') le
     \<and> nice_value plat typed = nice_value plat ''High''"
proof (cases "selected_pid a")
  case None
  then show ?thesis
    using nice_value_unmapped [OF assms] by (simp add: boost_selected_process_def)
next
  case (Some p)
  then show ?thesis
    using assms high_is_mapped [of plat] nice_value_unmapped [OF assms]
    by (simp add: boost_selected_process_def Let_def)
qed

theorem unmapped_level_falls_back_to_high_witness:
  "''Turbo'' \<notin> set (map fst (priority_map ''win32''))
   \<and> boost_selected_process ''win32'' quiet_os (init_app\<lparr>selected_pid := Some 4242\<rparr>)
         (Some ''Turbo'') clock0
       = boost_selected_process ''win32'' quiet_os (init_app\<lparr>selected_pid := Some 4242\<rparr>)
         (Some ''High'') clock0
   \<and> nice_value ''win32'' ''Turbo'' = PriorityClass HIGH_PRIORITY_CLASS"
proof -
  have h: "''Turbo'' \<notin> set (map fst (priority_map ''win32''))"
    by (simp add: priority_map_def PRIORITY_LEVELS_Windows_def)
  have "nice_value ''win32'' ''High'' = PriorityClass HIGH_PRIORITY_CLASS"
    by (simp add: nice_value_def PRIORITY_LEVELS_Windows_def)
  with h unmapped_level_falls_back_to_high [OF h, of quiet_os
      "init_app\<lparr>selected_pid := Some 4242\<rparr>" clock0]
  show ?thesis by simp
qed

subsection \<open>Settings saved while a pass runs\<close>

lemma for_loop_append:
  "for_loop plat os a (evs1 @ evs2) =
     (let (a1, s1, e1) = for_loop plat os a evs1;
          (a2, s2, e2) = for_loop plat os a1 evs2
      in (a2, s1 @ s2, e1 @ e2))"
proof (induction evs1 arbitrary: a)
  case Nil
  show ?case by (simp split: prod.splits)
next
  case (Cons ev evs1)
  obtain a' s effs where h: "handle_event plat os a ev = (a', s, effs)"
    by (cases "handle_event plat os a ev")
  show ?case
    by (simp add: h Cons.IH [of a'] Let_def split: prod.splits)
qed

lemma boost_calls_for_loop_append:
  "boost_calls (snd (snd (for_loop plat os a (evs1 @ evs2)))) =
     boost_calls (snd (snd (for_loop plat os a evs1)))
     @ boost_calls (snd (snd (for_loop plat os (fst (for_loop plat os a evs1)) evs2)))"
  by (simp add: for_loop_append boost_calls_append split: prod.splits)

lemma handle_event_settings:
  "policy_config (fst (handle_event plat os a ev)) = settings_after (policy_config a) [ev]"
proof (cases ev)
  case (Proc r g1 g2 le)
  then show ?thesis
    by (cases r) (simp_all add: handle_event_def loop_body_Inl loop_body_Inr log_action_config
        assigns_config)
next
  case (Saved w)
  then show ?thesis by (simp add: handle_event_def assign_config)
next
  case (Closing le)
  then show ?thesis
    by (simp add: handle_event_def on_closing_def log_action_config policy_config_def
        log_action_def)
qed

lemma settings_after_Cons:
  "settings_after c (ev # evs) = settings_after (settings_after c [ev]) evs"
  by (cases ev) simp_all

lemma for_loop_settings:
  "policy_config (fst (for_loop plat os a evs)) = settings_after (policy_config a) evs"
proof (induction evs arbitrary: a)
  case Nil
  show ?case by simp
next
  case (Cons ev evs)
  obtain a' s effs where h: "handle_event plat os a ev = (a', s, effs)"
    by (cases "handle_event plat os a ev")
  obtain a'' ss effs' where f: "for_loop plat os a' evs = (a'', ss, effs')"
    by (cases "for_loop plat os a' evs")
  have "policy_config a' = settings_after (policy_config a) [ev]"
    using handle_event_settings [of plat os a ev] h by simp
  moreover have "policy_config a'' = settings_after (policy_config a') evs"
    using Cons.IH [of a'] f by simp
  ultimately show ?case
    using h f settings_after_Cons [of "policy_config a" ev evs] by simp
qed

lemma loop_body_calls:
  "boost_calls (snd (snd (loop_body plat os a (Inr info) g1 g2 le))) =
     calls_under (policy_config a) info g1 g2"
proof -
  have 1: "fold written g1 (policy_config a) = policy_config (fold assign g1 a)"
    by (simp add: assigns_config)
  have 2: "fold written g2 (policy_config (fold assign g1 a)) = policy_config (fold assign (g1 @ g2) a)"
    by (simp add: assigns_config)
  show ?thesis
    unfolding calls_under_def Let_def 1 2
    by (simp add: loop_body_Inr boost_effects observe_Nil policy_config_def)
qed

lemma boost_calls_pass:
  "boost_calls (snd (snd (monitor_pass plat a env))) =
     (if loop_reached env
      then boost_calls (snd (snd (for_loop plat (os_view env) a (schedule env)))) else [])"
proof -
  have c: "\<And>x xs. boost_calls (UpdateSystemStats x # xs) = boost_calls xs"
    "\<And>x. boost_calls [UpdateProcessList x] = []"
    by (simp_all add: boost_calls_def)
  show ?thesis
    by (cases "for_loop plat (os_view env) a (schedule env)")
      (auto simp: monitor_pass_def Let_def loop_reached_def c observe_Nil boost_calls_append
        split: sum.splits option.splits)
qed

lemmas run_simps = handle_event_def loop_body_def boost_process_priority_def nice_value_def
  PRIORITY_LEVELS_Windows_def log_action_def deque_append_def action_history_maxlen_def
  mk_info_def or_str_def or_float_def calculate_score_def boost_calls_def assign_def Let_def

text \<open>
  C8, as stated, fails. The settings are saved while a pass runs: auto-boost was
  off with threshold 50 and level \<^verbatim>\<open>High\<close>, the user saves auto-boost on with
  threshold 90 and level \<^verbatim>\<open>Low\<close>. Neither the old nor the new settings boost a
  process of score 60, and yet the pass boosts pid 201 to \<^verbatim>\<open>High\<close>: that iteration
  ran after the first of the three assignments, with the new switch and the old
  threshold and level. The second process is evaluated with the new settings. In
  the last pass auto-boost is on and the level is assigned between the condition
  and the call of one iteration: the process is boosted to the new level.
\<close>

theorem settings_saved_during_pass_counterexample:
  "boost_calls (snd (snd (monitor_pass ''win32'' init_app torn_pass))) = [(201, ''High'')]
   \<and> boost_calls (snd (snd (monitor_pass ''win32'' init_app settled_pass))) = []
   \<and> boost_calls (snd (snd (monitor_pass ''win32'' saved_app settled_pass))) = []
   \<and> policy_config init_app = (False, 50, ''High'')
   \<and> policy_config saved_app = (True, 90, ''Low'')
   \<and> policy_config (fst (snd (monitor_pass ''win32'' init_app torn_pass))) = policy_config saved_app
   \<and> boost_calls (snd (snd (monitor_pass ''win32'' boosting_app split_pass))) = [(201, ''Low'')]"
proof -
  have 1: "boost_calls (snd (snd (monitor_pass ''win32'' init_app torn_pass))) = [(201, ''High'')]"
    unfolding boost_calls_pass
    by (simp add: loop_reached_def torn_pass_def pass_of_def run_simps init_app_def quiet_os_def)
  have 2: "boost_calls (snd (snd (monitor_pass ''win32'' init_app settled_pass))) = []"
    unfolding boost_calls_pass
    by (simp add: loop_reached_def settled_pass_def pass_of_def run_simps init_app_def quiet_os_def)
  have 3: "boost_calls (snd (snd (monitor_pass ''win32'' saved_app settled_pass))) = []"
    unfolding boost_calls_pass
    by (simp add: loop_reached_def settled_pass_def pass_of_def run_simps saved_app_def init_app_def quiet_os_def)
  have 4: "policy_config init_app = (False, 50, ''High'')"
    "policy_config saved_app = (True, 90, ''Low'')"
    by (simp_all add: policy_config_def saved_app_def init_app_def)
  have 5: "policy_config (fst (snd (monitor_pass ''win32'' init_app torn_pass)))
      = policy_config saved_app"
    by (simp add: torn_pass_def monitor_pass_def pass_of_def run_simps init_app_def quiet_os_def
        policy_config_def saved_app_def)
  have 6: "boost_calls (snd (snd (monitor_pass ''win32'' boosting_app split_pass))) = [(201, ''Low'')]"
    unfolding boost_calls_pass
    by (simp add: loop_reached_def split_pass_def pass_of_def run_simps boosting_app_def init_app_def
        quiet_os_def)
  from 1 2 3 4 5 6 show ?thesis by simp
qed

text \<open>
  C8, amended. No copy of the settings is taken at the start of a pass; every read
  of a setting gets the value last assigned to it. After any events of a pass the
  settings in the application object are those of the start of the pass with every
  assignment made since, in order. The calls of an iteration are decided by these
  settings as the iteration finds them and as the assignments inside it change them:
  the switch as found, the threshold after the first group of assignments, the level
  after both. The calls of a pass are the calls of its \<^verbatim>\<open>for\<close> loop when the loop is
  reached, and none otherwise.
\<close>

theorem settings_are_read_when_used:
  "policy_config (fst (for_loop plat os a evs1)) = settings_after (policy_config a) evs1
   \<and> boost_calls (snd (snd (for_loop plat os a (evs1 @ Proc (Inr info) g1 g2 le # evs2)))) =
       boost_calls (snd (snd (for_loop plat os a evs1)))
       @ calls_under (settings_after (policy_config a) evs1) info g1 g2
       @ boost_calls (snd (snd (for_loop plat os
            (fst (for_loop plat os a (evs1 @ [Proc (Inr info) g1 g2 le]))) evs2)))
   \<and> boost_calls (snd (snd (monitor_pass plat a env))) =
       (if loop_reached env
        then boost_calls (snd (snd (for_loop plat (os_view env) a (schedule env)))) else [])"
proof -
  let ?P = "Proc (Inr info) g1 g2 le"
  let ?a1 = "fst (for_loop plat os a evs1)"
  have one: "boost_calls (snd (snd (for_loop plat os ?a1 [?P]))) =
      calls_under (settings_after (policy_config a) evs1) info g1 g2"
    using loop_body_calls [of plat os ?a1 info g1 g2 le]
    by (simp add: handle_event_def for_loop_settings split: prod.splits)
  have "boost_calls (snd (snd (for_loop plat os a ((evs1 @ [?P]) @ evs2)))) =
       boost_calls (snd (snd (for_loop plat os a (evs1 @ [?P]))))
       @ boost_calls (snd (snd (for_loop plat os (fst (for_loop plat os a (evs1 @ [?P]))) evs2)))"
    by (rule boost_calls_for_loop_append)
  also have "boost_calls (snd (snd (for_loop plat os a (evs1 @ [?P])))) =
       boost_calls (snd (snd (for_loop plat os a evs1)))
       @ calls_under (settings_after (policy_config a) evs1) info g1 g2"
    unfolding boost_calls_for_loop_append [of plat os a evs1 "[?P]"] one ..
  finally have "boost_calls (snd (snd (for_loop plat os a (evs1 @ ?P # evs2)))) =
       boost_calls (snd (snd (for_loop plat os a evs1)))
       @ calls_under (settings_after (policy_config a) evs1) info g1 g2
       @ boost_calls (snd (snd (for_loop plat os (fst (for_loop plat os a (evs1 @ [?P]))) evs2)))"
    by simp
  then show ?thesis
    using for_loop_settings [of plat os a evs1] boost_calls_pass [of plat a env] by blast
qed

theorem settings_are_read_when_used_witness:
  "policy_config init_app = (False, 50, ''High'')
   \<and> policy_config (fst (for_loop ''win32'' quiet_os init_app [Saved (SetEnabled True)]))
       = (True, 50, ''High'')
   \<and> calls_under (True, 50, ''High'') (mk_info 201 ''game.exe'' 100 0) [] [] = [(201, ''High'')]
   \<and> calls_under (True, 50, ''High'') (mk_info 201 ''game.exe'' 100 0) [SetThreshold 90] [] = []
   \<and> calls_under (True, 50, ''High'') (mk_info 201 ''game.exe'' 100 0) [] [SetLevel ''Low'']
       = [(201, ''Low'')]
   \<and> boost_calls (snd (snd (for_loop ''win32'' quiet_os init_app
        ([Saved (SetEnabled True)] @ Proc (Inr (mk_info 201 ''game.exe'' 100 0)) [] [] clock0
           # [Saved (SetThreshold 90)])))) = [(201, ''High'')]
   \<and> loop_reached torn_pass
   \<and> boost_calls (snd (snd (monitor_pass ''win32'' init_app torn_pass)))
       = boost_calls (snd (snd (for_loop ''win32'' (os_view torn_pass) init_app
           (schedule torn_pass))))"
proof -
  have c: "policy_config init_app = (False, 50, ''High'')"
    by (simp add: policy_config_def init_app_def)
  have s: "settings_after (False, 50, ''High'') [Saved (SetEnabled True)] = (True, 50, ''High'')"
    by (simp add: written_def)
  have u: "calls_under (True, 50, ''High'') (mk_info 201 ''game.exe'' 100 0) [] [] = [(201, ''High'')]"
    "calls_under (True, 50, ''High'') (mk_info 201 ''game.exe'' 100 0) [SetThreshold 90] [] = []"
    "calls_under (True, 50, ''High'') (mk_info 201 ''game.exe'' 100 0) [] [SetLevel ''Low'']
       = [(201, ''Low'')]"
    by (simp_all add: calls_under_def written_def sample_of_def mk_info_def or_float_def
        calculate_score_def)
  have e: "boost_calls (snd (snd (for_loop ''win32'' quiet_os init_app [Saved (SetEnabled True)])))
      = []"
    "boost_calls (snd (snd (for_loop ''win32'' quiet_os
        (fst (for_loop ''win32'' quiet_os init_app
           ([Saved (SetEnabled True)] @ [Proc (Inr (mk_info 201 ''game.exe'' 100 0)) [] [] clock0])))
        [Saved (SetThreshold 90)]))) = []"
    by (simp_all add: handle_event_def observe_Nil split: prod.splits)
  have r: "loop_reached torn_pass"
    by (simp add: loop_reached_def torn_pass_def pass_of_def)
  show ?thesis
    using c s u e r
      settings_are_read_when_used [of "''win32''" quiet_os init_app "[Saved (SetEnabled True)]"
        "mk_info 201 ''game.exe'' 100 0" "[]" "[]" clock0 "[Saved (SetThreshold 90)]" torn_pass]
    by simp
qed

subsection \<open>The scheduler loop\<close>

lemma handle_event_active:
  "monitoring_active (fst (handle_event plat os a ev)) = (monitoring_active a \<and> \<not> is_closing ev)"
proof (cases ev)
  case (Proc r g1 g2 le)
  then show ?thesis
    by (cases r) (simp_all add: handle_event_def loop_body_Inl loop_body_Inr log_action_active
        assigns_other is_closing_def)
next
  case (Closing le)
  then show ?thesis
    by (simp add: handle_event_def on_closing_def log_action_active is_closing_def)
qed (simp_all add: handle_event_def assign_other is_closing_def)

lemma for_loop_active:
  "monitoring_active (fst (for_loop plat os a evs)) =
     (monitoring_active a \<and> \<not> list_ex is_closing evs)"
proof (induction evs arbitrary: a)
  case Nil
  show ?case by simp
next
  case (Cons ev evs)
  obtain a' s effs where h: "handle_event plat os a ev = (a', s, effs)"
    by (cases "handle_event plat os a ev")
  obtain a'' ss effs' where f: "for_loop plat os a' evs = (a'', ss, effs')"
    by (cases "for_loop plat os a' evs")
  have "monitoring_active a' = (monitoring_active a \<and> \<not> is_closing ev)"
    using handle_event_active [of plat os a ev] h by simp
  moreover have "monitoring_active a'' = (monitoring_active a' \<and> \<not> list_ex is_closing evs)"
    using Cons.IH [of a'] f by simp
  ultimately show ?case
    using h f by auto
qed

lemma closing_kept:
  "list_ex is_closing (filter (\<lambda>ev. \<not> is_iteration ev) evs) = list_ex is_closing evs"
  by (induction evs) (auto simp: is_closing_def is_iteration_def split: event.splits)

lemma tk_only_active:
  "monitoring_active (tk_only plat os a evs) =
     (monitoring_active a \<and> \<not> list_ex is_closing evs)"
  by (simp add: tk_only_def for_loop_active closing_kept)

lemma monitor_pass_active:
  "monitoring_active (fst (snd (monitor_pass plat a env))) =
     (monitoring_active a \<and> \<not> stop_requested env)"
proof -
  obtain a' ss effs where f: "for_loop plat (os_view env) a (schedule env) = (a', ss, effs)"
    by (cases "for_loop plat (os_view env) a (schedule env)")
  have 1: "monitoring_active a' = (monitoring_active a \<and> \<not> stop_requested env)"
    using for_loop_active [of plat "os_view env" a "schedule env"] f
    by (simp add: stop_requested_def)
  have 2: "monitoring_active (tk_only plat (os_view env) a (schedule env)) =
     (monitoring_active a \<and> \<not> stop_requested env)"
    by (simp add: tk_only_active stop_requested_def)
  show ?thesis
    by (simp add: monitor_pass_def Let_def f 1 2 split: sum.splits option.splits)
qed

lemma monitor_pass_sleeps: "sleeps (snd (snd (monitor_pass plat a env))) = []"
proof -
  obtain a' ss effs where f: "for_loop plat (os_view env) a (schedule env) = (a', ss, effs)"
    by (cases "for_loop plat (os_view env) a (schedule env)")
  have q: "sleeps effs = []"
    using for_loop_quiet [of plat "os_view env" a "schedule env"] f by simp
  have c: "\<And>x xs. sleeps (UpdateSystemStats x # xs) = sleeps xs"
    "\<And>x. sleeps [UpdateProcessList x] = []"
    by (simp_all add: sleeps_def)
  show ?thesis
    by (simp add: monitor_pass_def Let_def f q c observe_Nil sleeps_append
        split: sum.splits option.splits)
qed

lemma sleeps_Sleep: "sleeps (Sleep t # xs) = t # sleeps xs"
  by (simp add: sleeps_def)

lemma monitor_processes_step:
  assumes "monitoring_active a"
  shows "monitor_processes plat a (env # envs) =
     (fst (monitor_processes plat (fst (snd (monitor_pass plat a env))) envs),
      fst (snd (monitor_processes plat (fst (snd (monitor_pass plat a env))) envs)),
      snd (snd (monitor_pass plat a env)) @ Sleep 1 #
        snd (snd (monitor_processes plat (fst (snd (monitor_pass plat a env))) envs)))"
  using assms
  by (cases "monitor_pass plat a env")
    (auto split: prod.splits option.splits)

lemma monitor_processes_stopped:
  "\<not> monitoring_active a \<Longrightarrow> monitor_processes plat a envs = (Returned, a, [])"
  by (cases envs) simp_all

lemma loop_state_and_sleeps:
  assumes "monitoring_active a"
  shows "(fst (monitor_processes plat a envs) = Returned \<longleftrightarrow> list_ex stop_requested envs)
     \<and> (fst (monitor_processes plat a envs) = Running \<longleftrightarrow> \<not> list_ex stop_requested envs)
     \<and> sleeps (snd (snd (monitor_processes plat a envs))) = replicate (passes_run envs) 1"
  using assms
proof (induction envs arbitrary: a)
  case Nil
  then show ?case by (simp add: observe_Nil)
next
  case (Cons env envs)
  let ?a' = "fst (snd (monitor_pass plat a env))"
  have step: "monitor_processes plat a (env # envs) =
     (fst (monitor_processes plat ?a' envs),
      fst (snd (monitor_processes plat ?a' envs)),
      snd (snd (monitor_pass plat a env)) @ Sleep 1 # snd (snd (monitor_processes plat ?a' envs)))"
    using Cons.prems by (rule monitor_processes_step)
  have act: "monitoring_active ?a' = (\<not> stop_requested env)"
    using Cons.prems by (simp add: monitor_pass_active)
  show ?case
  proof (cases "stop_requested env")
    case True
    then have "monitor_processes plat ?a' envs = (Returned, ?a', [])"
      using act by (simp add: monitor_processes_stopped)
    then show ?thesis
      using True unfolding step
      by (simp add: sleeps_append monitor_pass_sleeps sleeps_Sleep observe_Nil
          del: monitor_processes.simps)
  next
    case False
    then have "monitoring_active ?a'" using act by simp
    from Cons.IH [OF this] False show ?thesis
      unfolding step
      by (simp add: sleeps_append monitor_pass_sleeps sleeps_Sleep
          del: monitor_processes.simps)
  qed
qed

text \<open>
  C9. Started with the stop flag set, the loop returns if and only if
  \<^verbatim>\<open>on_closing\<close> runs during one of the passes, and is otherwise still running after
  any number of passes, whichever of them end in an exception. It runs the passes up
  to and with the first one during which the window is closed, and sleeps one second
  after each of them and at no other time: the effects of a pass, raised or not, are
  followed at once by the sleep of one second.
\<close>

theorem loop_runs_until_stopped:
  assumes "monitoring_active a"
  shows "(fst (monitor_processes plat a envs) = Returned \<longleftrightarrow> list_ex stop_requested envs)
     \<and> (fst (monitor_processes plat a envs) = Running \<longleftrightarrow> \<not> list_ex stop_requested envs)
     \<and> sleeps (snd (snd (monitor_processes plat a envs))) = replicate (passes_run envs) 1
     \<and> (\<exists>rest. snd (snd (monitor_processes plat a (env # envs)))
            = snd (snd (monitor_pass plat a env)) @ Sleep 1 # rest)"
proof -
  have "\<exists>rest. snd (snd (monitor_processes plat a (env # envs)))
            = snd (snd (monitor_pass plat a env)) @ Sleep 1 # rest"
    unfolding monitor_processes_step [OF assms] by simp
  with loop_state_and_sleeps [OF assms, of plat envs] show ?thesis by blast
qed

theorem loop_runs_until_stopped_witness:
  "monitoring_active boosting_app
   \<and> fst (monitor_pass ''win32'' boosting_app failing_pass) = Some OtherException
   \<and> \<not> list_ex stop_requested [failing_pass, scores_pass]
   \<and> fst (monitor_processes ''win32'' boosting_app [failing_pass, scores_pass]) = Running
   \<and> sleeps (snd (snd (monitor_processes ''win32'' boosting_app [failing_pass, scores_pass])))
        = [1, 1]
   \<and> list_ex stop_requested [failing_pass, scores_pass, closing_pass, scores_pass]
   \<and> fst (monitor_processes ''win32'' boosting_app
             [failing_pass, scores_pass, closing_pass, scores_pass]) = Returned
   \<and> sleeps (snd (snd (monitor_processes ''win32'' boosting_app
             [failing_pass, scores_pass, closing_pass, scores_pass]))) = [1, 1, 1]"
proof -
  have h: "monitoring_active boosting_app"
    by (simp add: boosting_app_def init_app_def)
  have f: "fst (monitor_pass ''win32'' boosting_app failing_pass) = Some OtherException"
    by (simp add: monitor_pass_def failing_pass_def pass_of_def)
  have s: "\<not> stop_requested failing_pass" "\<not> stop_requested scores_pass"
    "stop_requested closing_pass"
    by (simp_all add: stop_requested_def failing_pass_def scores_pass_def closing_pass_def
        pass_of_def is_closing_def)
  have n: "replicate (passes_run [failing_pass, scores_pass]) (1::real) = [1, 1]"
    "replicate (passes_run [failing_pass, scores_pass, closing_pass, scores_pass]) (1::real)
       = [1, 1, 1]"
    by (simp_all add: s)
  show ?thesis
    using h f s n
      loop_runs_until_stopped [OF h, of "''win32''" "[failing_pass, scores_pass]" scores_pass]
      loop_runs_until_stopped [OF h, of "''win32''"
        "[failing_pass, scores_pass, closing_pass, scores_pass]" scores_pass]
    by (simp del: monitor_processes.simps passes_run.simps)
qed

end
